theory Spec2Isabelle
  imports Main
begin

section \<open>The store: rows, tables, clock\<close>

text \<open>
  The library application keeps its data in a relational store accessed through peewee
  models (\<^verbatim>\<open>app/models.py\<close>). A model class is a record here, a table is the
  list of its rows, and the primary key \<^verbatim>\<open>id\<close> is a field of the row. Status
  columns are text columns in the source and stay strings.

  A \<^verbatim>\<open>date\<close> is its proleptic Gregorian ordinal (\<^verbatim>\<open>date.toordinal()\<close>), from 1
  for \<^verbatim>\<open>date.min\<close> to 3652059 for \<^verbatim>\<open>date.max\<close>, and a naive \<^verbatim>\<open>datetime\<close> is
  a number of microseconds, \<open>86400000000\<close> to the day, so that
  \<^verbatim>\<open>datetime.combine\<close> and the comparisons of the source are arithmetic. The
  operations read the clock (\<^verbatim>\<open>date.today()\<close>, \<^verbatim>\<open>datetime.now()\<close>); the values
  read are arguments \<open>today\<close> and \<open>now\<close> of the model, with no relation assumed
  between the two.
\<close>

type_synonym date = int
type_synonym datetime = int

definition date_ok :: "date \<Rightarrow> bool" where
  "date_ok d \<longleftrightarrow> 1 \<le> d \<and> d \<le> 3652059"

text \<open>
  \<^verbatim>\<open>d + timedelta(days=n)\<close>: OverflowError, here \<open>None\<close>, when the timedelta or the
  resulting date is out of range.
\<close>

definition date_plus_days :: "date \<Rightarrow> int \<Rightarrow> date option" where
  "date_plus_days d n =
     (if \<bar>n\<bar> \<le> 999999999 \<and> date_ok (d + n) then Some (d + n) else None)"

record copy_row =
  c_id :: nat
  c_inventory_code :: string
  c_status :: string
  c_book :: nat
  c_location :: "nat option"

record location_row =
  loc_id :: nat
  loc_branch :: nat

record user_row =
  u_id :: nat
  u_login :: string

record loan_row =
  l_id :: nat
  l_status :: string
  l_start_date :: date
  l_due_date :: date
  l_return_date :: "date option"
  l_copy :: nat
  l_reader :: nat
  l_librarian :: nat

record reservation_row =
  r_id :: nat
  r_status :: string
  r_pickup_date :: date
  r_created_at :: datetime
  r_expires_at :: datetime
  r_extended_once :: bool
  r_reader :: nat
  r_copy :: nat
  r_branch :: nat

text \<open>
  The store. \<open>next_loan_id\<close> and \<open>next_reservation_id\<close> are the sequences behind
  the two surrogate keys that the engine operations draw from.
\<close>

record db =
  copies :: "copy_row list"
  locations :: "location_row list"
  users :: "user_row list"
  loans :: "loan_row list"
  reservations :: "reservation_row list"
  next_loan_id :: nat
  next_reservation_id :: nat

text \<open>
  Every operation returns a pair \<^verbatim>\<open>(ok, message)\<close>, sometimes with a third component.
  The messages are fixed per return statement, so a failed return is the constructor
  naming its return statement, and a successful one carries the value the message or the
  third component reports. An exception that leaves the function is \<open>Exc\<close>.
\<close>

datatype failure =
    BadPickupDate          \<comment> \<open>create_reservation: pickup date outside today .. today+3\<close>
  | NoFreeCopies           \<comment> \<open>create_reservation: no available copy at the branch\<close>
  | ReservationNotFound    \<comment> \<open>cancel, extend, fulfill: no such reservation\<close>
  | NotYourReservation     \<comment> \<open>cancel, extend: reservation of another reader\<close>
  | ReservationNotActive   \<comment> \<open>cancel, extend, fulfill: status is not active\<close>
  | AlreadyExtended        \<comment> \<open>extend: extended_once is set\<close>
  | CopyNotReserved        \<comment> \<open>fulfill: copy status is not reserved\<close>
  | ActiveLoanExists       \<comment> \<open>fulfill: open or overdue loan on the copy\<close>
  | MissingInput           \<comment> \<open>issue_loan: empty inventory code or reader login\<close>
  | CopyNotFound           \<comment> \<open>issue_loan: no copy with the inventory code\<close>
  | CopyNotAvailable       \<comment> \<open>issue_loan: copy status is not available\<close>
  | ReaderNotFound         \<comment> \<open>issue_loan: no user with the login\<close>
  | CopyTaken              \<comment> \<open>issue_loan: status changed before the lock\<close>
  | DbError                \<comment> \<open>issue_loan: IntegrityError caught\<close>
  | LoanNotFound           \<comment> \<open>return_loan: no such loan\<close>
  | LoanNotReturnable      \<comment> \<open>return_loan: status is not open or overdue\<close>
  | LoanStatusChanged      \<comment> \<open>return_loan: status changed before the lock\<close>

datatype exn = IntegrityError | DoesNotExist | OverflowError

datatype 'a outcome = Ok 'a | Err failure | Exc exn

section \<open>Reservation engine: expiry sweep\<close>

text \<open>\<^verbatim>\<open>_end_of_day(d) = datetime.combine(d, time(23, 59, 59))\<close>\<close>

definition datetime_combine :: "date \<Rightarrow> nat \<Rightarrow> nat \<Rightarrow> nat \<Rightarrow> datetime" where
  "datetime_combine d h m sec = d * 86400000000 + int (((h * 60 + m) * 60 + sec) * 1000000)"

definition end_of_day :: "date \<Rightarrow> datetime" where
  "end_of_day d = datetime_combine d 23 59 59"

text \<open>
  \<^verbatim>\<open>expire_old_reservations\<close>: the rows selected are the active reservations whose
  \<^verbatim>\<open>expires_at\<close> is before \<open>now\<close>; with none selected nothing is written; otherwise
  the reservations with a selected id become expired and the copies with a selected
  copy id that are still reserved become available. The result is the number selected.
\<close>

definition expire_old_reservations :: "datetime \<Rightarrow> db \<Rightarrow> db \<times> nat" where
  "expire_old_reservations now s =
     (let q = filter (\<lambda>r. r_status r = ''active'' \<and> r_expires_at r < now) (reservations s);
          ids = map r_id q;
          copy_ids = map r_copy q
      in if ids = [] then (s, 0)
         else (s\<lparr>reservations :=
                   map (\<lambda>r. if r_id r \<in> set ids then r\<lparr>r_status := ''expired''\<rparr> else r)
                     (reservations s),
                 copies :=
                   map (\<lambda>c. if c_id c \<in> set copy_ids \<and> c_status c = ''reserved''
                            then c\<lparr>c_status := ''available''\<rparr> else c)
                     (copies s)\<rparr>,
               length ids))"

text \<open>
  The two halves of the sweep. The SELECT takes no lock and the UPDATEs go by the ids
  selected, so between the two another caller's transaction can commit (the store is
  PostgreSQL, where under the default isolation level, read committed, each statement
  sees what was committed before it starts):
  \<open>sweep_select\<close> is the loop that collects \<^verbatim>\<open>ids\<close> and \<^verbatim>\<open>copy_ids\<close>,
  \<open>sweep_update\<close> the two UPDATE statements run on the store as it then is.
\<close>

definition sweep_select :: "datetime \<Rightarrow> db \<Rightarrow> nat list \<times> nat list" where
  "sweep_select now s =
     (let q = filter (\<lambda>r. r_status r = ''active'' \<and> r_expires_at r < now) (reservations s)
      in (map r_id q, map r_copy q))"

definition sweep_update :: "nat list \<times> nat list \<Rightarrow> db \<Rightarrow> db" where
  "sweep_update sel s =
     s\<lparr>reservations :=
         map (\<lambda>r. if r_id r \<in> set (fst sel) then r\<lparr>r_status := ''expired''\<rparr> else r)
           (reservations s),
       copies :=
         map (\<lambda>c. if c_id c \<in> set (snd sel) \<and> c_status c = ''reserved''
                  then c\<lparr>c_status := ''available''\<rparr> else c)
           (copies s)\<rparr>"

section \<open>Loan engine: overdue update\<close>

text \<open>
  \<^verbatim>\<open>update_overdue_statuses\<close> is one UPDATE statement; its result is the number of
  rows the WHERE clause matched.
\<close>

definition update_overdue_statuses :: "date \<Rightarrow> db \<Rightarrow> db \<times> nat" where
  "update_overdue_statuses today s =
     (s\<lparr>loans := map (\<lambda>l. if l_status l = ''open'' \<and> l_due_date l < today
                           then l\<lparr>l_status := ''overdue''\<rparr> else l) (loans s)\<rparr>,
      length (filter (\<lambda>l. l_status l = ''open'' \<and> l_due_date l < today) (loans s)))"

section \<open>Row writes\<close>

text \<open>
  \<^verbatim>\<open>obj.save()\<close> on a loaded row is an UPDATE of all its columns WHERE id = obj.id.
\<close>

definition save_copy :: "copy_row \<Rightarrow> db \<Rightarrow> db" where
  "save_copy c s = s\<lparr>copies := map (\<lambda>x. if c_id x = c_id c then c else x) (copies s)\<rparr>"

definition save_loan :: "loan_row \<Rightarrow> db \<Rightarrow> db" where
  "save_loan l s = s\<lparr>loans := map (\<lambda>x. if l_id x = l_id l then l else x) (loans s)\<rparr>"

definition save_reservation :: "reservation_row \<Rightarrow> db \<Rightarrow> db" where
  "save_reservation r s =
     s\<lparr>reservations := map (\<lambda>x. if r_id x = r_id r then r else x) (reservations s)\<rparr>"

definition ACTIVE_LOAN_STATUSES :: "string list" where
  "ACTIVE_LOAN_STATUSES = [''open'', ''overdue'']"

text \<open>
  \<^verbatim>\<open>Loan.create\<close> and \<^verbatim>\<open>Reservation.create\<close> insert a row under the next value
  of the sequence. The store rejects the insert with IntegrityError, here the result
  \<open>None\<close>, in two cases. The migrations put a partial unique index on each table
  (\<^verbatim>\<open>uq_one_open_loan_per_copy\<close>: \<^verbatim>\<open>loans(copy_id) WHERE status IN ('open','overdue')\<close>;
  \<^verbatim>\<open>uq_reservation_active_copy\<close>: \<^verbatim>\<open>reservations(copy_id) WHERE status = 'active'\<close>),
  which a second such row for a copy violates; and the reader and the librarian of
  the row are foreign keys to \<^verbatim>\<open>users\<close>. The other foreign keys of the two rows
  hold where the engine inserts: the copy is a row read in the same transaction, and
  the branch is that of a location read (the table of branches is left out: a location
  exists only with its branch). The value drawn from the sequence is spent whether
  the insert is accepted or not, and stays spent when the transaction rolls back.
\<close>

definition user_exists :: "db \<Rightarrow> nat \<Rightarrow> bool" where
  "user_exists s uid \<longleftrightarrow> (\<exists>u \<in> set (users s). u_id u = uid)"

definition loan_create :: "loan_row \<Rightarrow> db \<Rightarrow> db \<times> nat option" where
  "loan_create row s =
     (let lid = next_loan_id s;
          s1 = s\<lparr>next_loan_id := Suc lid\<rparr>
      in
      if l_status row \<in> set ACTIVE_LOAN_STATUSES \<and>
         (\<exists>l \<in> set (loans s). l_copy l = l_copy row \<and> l_status l \<in> set ACTIVE_LOAN_STATUSES)
      then (s1, None)
      else if user_exists s (l_reader row) \<and> user_exists s (l_librarian row)
      then (s1\<lparr>loans := loans s @ [row\<lparr>l_id := lid\<rparr>]\<rparr>, Some lid)
      else (s1, None))"

definition reservation_create :: "reservation_row \<Rightarrow> db \<Rightarrow> db \<times> nat option" where
  "reservation_create row s =
     (let rid = next_reservation_id s;
          s1 = s\<lparr>next_reservation_id := Suc rid\<rparr>
      in
      if r_status row = ''active'' \<and>
         (\<exists>r \<in> set (reservations s). r_copy r = r_copy row \<and> r_status r = ''active'')
      then (s1, None)
      else if user_exists s (r_reader row)
      then (s1\<lparr>reservations := reservations s @ [row\<lparr>r_id := rid\<rparr>]\<rparr>, Some rid)
      else (s1, None))"

text \<open>
  The rollback of a transaction that started on \<open>s0\<close> and has reached \<open>s\<close>: the
  tables are those of \<open>s0\<close>, the sequences keep their advance.
\<close>

definition rollback :: "db \<Rightarrow> db \<Rightarrow> db" where
  "rollback s0 s =
     s0\<lparr>next_loan_id := next_loan_id s, next_reservation_id := next_reservation_id s\<rparr>"

section \<open>Reservation engine\<close>

text \<open>
  The locking read of \<^verbatim>\<open>create_reservation\<close>: copies of the book, available, joined
  to a location of the branch, ordered by copy id; \<^verbatim>\<open>first()\<close> takes the head.
\<close>

definition select_available_copy :: "nat \<Rightarrow> nat \<Rightarrow> db \<Rightarrow> copy_row option" where
  "select_available_copy book_id branch_id s =
     (case sort_key c_id
             (filter (\<lambda>c. c_book c = book_id \<and> c_status c = ''available'' \<and>
                           (\<exists>l \<in> set (locations s).
                               c_location c = Some (loc_id l) \<and> loc_branch l = branch_id))
                (copies s))
      of [] \<Rightarrow> None | c # _ \<Rightarrow> Some c)"

text \<open>
  \<^verbatim>\<open>create_reservation\<close>. The second test of the validation adds three days to
  today and is reached only when the first fails. The sweep commits before the
  transaction of the allocation opens, so every return after it leaves the swept
  store; an IntegrityError from the insert is not caught: it rolls the allocation back
  and leaves the function.
\<close>

definition create_reservation ::
  "date \<Rightarrow> datetime \<Rightarrow> nat \<Rightarrow> nat \<Rightarrow> nat \<Rightarrow> date \<Rightarrow> db \<Rightarrow> db \<times> nat outcome" where
  "create_reservation today now reader book_id branch_id pickup_date s =
     (if pickup_date < today then (s, Err BadPickupDate)
      else case date_plus_days today 3 of
        None \<Rightarrow> (s, Exc OverflowError)
      | Some last_day \<Rightarrow>
          if pickup_date > last_day then (s, Err BadPickupDate)
          else
            let s1 = fst (expire_old_reservations now s) in
            (case select_available_copy book_id branch_id s1 of
               None \<Rightarrow> (s1, Err NoFreeCopies)
             | Some copy_obj \<Rightarrow>
                 let s2 = save_copy (copy_obj\<lparr>c_status := ''reserved''\<rparr>) s1 in
                 (case reservation_create
                         \<lparr>r_id = 0, r_status = ''active'', r_pickup_date = pickup_date,
                          r_created_at = now, r_expires_at = end_of_day pickup_date,
                          r_extended_once = False, r_reader = reader,
                          r_copy = c_id copy_obj, r_branch = branch_id\<rparr> s2
                  of (s3, None) \<Rightarrow> (rollback s1 s3, Exc IntegrityError)
                   | (s3, Some rid) \<Rightarrow> (s3, Ok rid))))"

definition cancel_reservation :: "datetime \<Rightarrow> nat \<Rightarrow> nat \<Rightarrow> db \<Rightarrow> db \<times> unit outcome" where
  "cancel_reservation now reader reservation_id s =
     (let s1 = fst (expire_old_reservations now s) in
      case find (\<lambda>r. r_id r = reservation_id) (reservations s1) of
        None \<Rightarrow> (s1, Err ReservationNotFound)
      | Some res \<Rightarrow>
          if r_reader res \<noteq> reader then (s1, Err NotYourReservation)
          else if r_status res \<noteq> ''active'' then (s1, Err ReservationNotActive)
          else
            let s2 = save_reservation (res\<lparr>r_status := ''cancelled''\<rparr>) s1 in
            (s2\<lparr>copies := map (\<lambda>c. if c_id c = r_copy res \<and> c_status c = ''reserved''
                                    then c\<lparr>c_status := ''available''\<rparr> else c) (copies s2)\<rparr>,
             Ok ()))"

text \<open>
  \<^verbatim>\<open>extend_reservation\<close>. Adding the day can raise OverflowError, before anything is
  written. The successful result is the new pickup date.
\<close>

definition extend_reservation :: "datetime \<Rightarrow> nat \<Rightarrow> nat \<Rightarrow> db \<Rightarrow> db \<times> date outcome" where
  "extend_reservation now reader reservation_id s =
     (let s1 = fst (expire_old_reservations now s) in
      case find (\<lambda>r. r_id r = reservation_id) (reservations s1) of
        None \<Rightarrow> (s1, Err ReservationNotFound)
      | Some res \<Rightarrow>
          if r_reader res \<noteq> reader then (s1, Err NotYourReservation)
          else if r_status res \<noteq> ''active'' then (s1, Err ReservationNotActive)
          else if r_extended_once res then (s1, Err AlreadyExtended)
          else
            (case date_plus_days (r_pickup_date res) 1 of
               None \<Rightarrow> (s1, Exc OverflowError)
             | Some new_pick \<Rightarrow>
                 (save_reservation
                    (res\<lparr>r_pickup_date := new_pick, r_expires_at := end_of_day new_pick,
                         r_extended_once := True\<rparr>) s1,
                  Ok new_pick)))"

text \<open>
  \<^verbatim>\<open>fulfill_reservation\<close>. The locking read joins the reservation to its copy, so it
  finds nothing when either row is missing. The due date is computed first and can
  raise OverflowError; \<^verbatim>\<open>res.reader\<close> then loads the user row and raises
  DoesNotExist without one; the insert of the loan can be rejected. None of the three
  is caught, and nothing has been written by then. The successful result is the due
  date.
\<close>

definition fulfill_reservation ::
  "date \<Rightarrow> datetime \<Rightarrow> nat \<Rightarrow> nat \<Rightarrow> int \<Rightarrow> db \<Rightarrow> db \<times> date outcome" where
  "fulfill_reservation today now librarian reservation_id loan_days s =
     (let s1 = fst (expire_old_reservations now s) in
      case find (\<lambda>r. r_id r = reservation_id) (reservations s1) of
        None \<Rightarrow> (s1, Err ReservationNotFound)
      | Some res \<Rightarrow>
         (case find (\<lambda>c. c_id c = r_copy res) (copies s1) of
            None \<Rightarrow> (s1, Err ReservationNotFound)
          | Some copy_obj \<Rightarrow>
              if r_status res \<noteq> ''active'' then (s1, Err ReservationNotActive)
              else if c_status copy_obj \<noteq> ''reserved'' then (s1, Err CopyNotReserved)
              else if (\<exists>l \<in> set (loans s1).
                         l_copy l = c_id copy_obj \<and> l_status l \<in> set ACTIVE_LOAN_STATUSES)
                then (s1, Err ActiveLoanExists)
              else
                let start = today in
                (case date_plus_days start loan_days of
                   None \<Rightarrow> (s1, Exc OverflowError)
                 | Some due \<Rightarrow>
                    (case find (\<lambda>u. u_id u = r_reader res) (users s1) of
                       None \<Rightarrow> (s1, Exc DoesNotExist)
                     | Some reader \<Rightarrow>
                        (case loan_create
                                \<lparr>l_id = 0, l_status = ''open'', l_start_date = start,
                                 l_due_date = due, l_return_date = None,
                                 l_copy = c_id copy_obj, l_reader = u_id reader,
                                 l_librarian = librarian\<rparr> s1
                         of (s2, None) \<Rightarrow> (rollback s1 s2, Exc IntegrityError)
                          | (s2, Some lid) \<Rightarrow>
                              (save_copy (copy_obj\<lparr>c_status := ''loaned''\<rparr>)
                                 (save_reservation (res\<lparr>r_status := ''fulfilled''\<rparr>) s2),
                               Ok due))))))"

section \<open>Loan engine\<close>

text \<open>
  \<^verbatim>\<open>str.strip()\<close> removes leading and trailing whitespace. A character of a
  \<^typ>\<open>string\<close> stands for the code point of its number; below 256 the code points
  that Python counts as whitespace are 9 to 13, 28 to 32, 133 and 160.
\<close>

definition isspace :: "char \<Rightarrow> bool" where
  "isspace ch =
     ((of_char ch :: nat) \<in> set [9, 10, 11, 12, 13, 28, 29, 30, 31, 32, 133, 160])"

definition strip :: "string \<Rightarrow> string" where
  "strip x = rev (dropWhile isspace (rev (dropWhile isspace x)))"

definition DEFAULT_LOAN_DAYS :: int where
  "DEFAULT_LOAN_DAYS = 14"

text \<open>
  \<^verbatim>\<open>issue_loan\<close>. The copy and the reader are resolved and the due date computed
  (OverflowError is not caught) outside the transaction; inside it the copy is read
  again by id under the lock (\<^verbatim>\<open>get()\<close> raises DoesNotExist on no row) and its
  status checked again. IntegrityError is caught and reported as a failure, the
  transaction rolled back. The successful result is the loan id.
\<close>

definition issue_loan :: "date \<Rightarrow> string \<Rightarrow> string \<Rightarrow> nat \<Rightarrow> db \<Rightarrow> db \<times> nat outcome" where
  "issue_loan today copy_inventory_code0 reader_login0 librarian_user s =
     (let copy_inventory_code = strip copy_inventory_code0;
          reader_login = strip reader_login0
      in
      if copy_inventory_code = [] \<or> reader_login = [] then (s, Err MissingInput)
      else
        case find (\<lambda>c. c_inventory_code c = copy_inventory_code) (copies s) of
          None \<Rightarrow> (s, Err CopyNotFound)
        | Some copy0 \<Rightarrow>
            if c_status copy0 \<noteq> ''available'' then (s, Err CopyNotAvailable)
            else
              (case find (\<lambda>u. u_login u = reader_login) (users s) of
                 None \<Rightarrow> (s, Err ReaderNotFound)
               | Some reader \<Rightarrow>
                   let start = today in
                   (case date_plus_days start DEFAULT_LOAN_DAYS of
                      None \<Rightarrow> (s, Exc OverflowError)
                    | Some due \<Rightarrow>
                       (case find (\<lambda>c. c_id c = c_id copy0) (copies s) of
                          None \<Rightarrow> (s, Exc DoesNotExist)
                        | Some copy1 \<Rightarrow>
                            if c_status copy1 \<noteq> ''available'' then (s, Err CopyTaken)
                            else
                              (case loan_create
                                      \<lparr>l_id = 0, l_status = ''open'', l_start_date = start,
                                       l_due_date = due, l_return_date = None,
                                       l_copy = c_id copy1, l_reader = u_id reader,
                                       l_librarian = librarian_user\<rparr> s
                               of (s1, None) \<Rightarrow> (rollback s s1, Err DbError)
                                | (s1, Some lid) \<Rightarrow>
                                    (save_copy (copy1\<lparr>c_status := ''loaned''\<rparr>) s1,
                                     Ok lid))))))"

text \<open>
  \<^verbatim>\<open>return_loan\<close>. \<^verbatim>\<open>loan.save()\<close> writes the caller as librarian, a foreign key
  to \<^verbatim>\<open>users\<close>: without the row the store rejects the update with IntegrityError.
  \<^verbatim>\<open>loan.copy\<close> then loads the copy row and raises DoesNotExist without one. Neither
  is caught; both roll the transaction back.
\<close>

definition return_loan :: "date \<Rightarrow> nat \<Rightarrow> nat \<Rightarrow> db \<Rightarrow> db \<times> unit outcome" where
  "return_loan today loan_id librarian_user s =
     (case find (\<lambda>l. l_id l = loan_id) (loans s) of
        None \<Rightarrow> (s, Err LoanNotFound)
      | Some loan0 \<Rightarrow>
          if l_status loan0 \<notin> set [''open'', ''overdue''] then (s, Err LoanNotReturnable)
          else
            (case find (\<lambda>l. l_id l = loan_id) (loans s) of
               None \<Rightarrow> (s, Exc DoesNotExist)
             | Some loan \<Rightarrow>
                 if l_status loan \<notin> set [''open'', ''overdue''] then (s, Err LoanStatusChanged)
                 else if user_exists s librarian_user then
                   (let s1 = save_loan (loan\<lparr>l_status := ''returned'',
                                             l_return_date := Some today,
                                             l_librarian := librarian_user\<rparr>) s
                    in
                    case find (\<lambda>c. c_id c = l_copy loan) (copies s1) of
                      None \<Rightarrow> (s, Exc DoesNotExist)
                    | Some copy0 \<Rightarrow> (save_copy (copy0\<lparr>c_status := ''available''\<rparr>) s1, Ok ()))
                 else (s, Exc IntegrityError)))"

section \<open>Access policy\<close>

text \<open>
  A role's \<^verbatim>\<open>rights\<close> column is a JSON value. A JSON object is the list of its
  items, in the order \<^verbatim>\<open>items()\<close> yields them; \<^verbatim>\<open>d.get(k)\<close> is \<open>map_of d k\<close>.
  Fractional numbers are left out; a number matters here only through being zero or not.
\<close>

datatype jval =
    JNull
  | JBool bool
  | JNum int
  | JStr string
  | JArr "jval list"
  | JObj "(string \<times> jval) list"

type_synonym rights_dict = "(string \<times> jval) list"

text \<open>\<^verbatim>\<open>bool(v)\<close>, with \<^verbatim>\<open>None\<close> for an absent key.\<close>

fun truthy :: "jval option \<Rightarrow> bool" where
  "truthy None = False"
| "truthy (Some JNull) = False"
| "truthy (Some (JBool b)) = b"
| "truthy (Some (JNum n)) = (n \<noteq> 0)"
| "truthy (Some (JStr x)) = (x \<noteq> [])"
| "truthy (Some (JArr xs)) = (xs \<noteq> [])"
| "truthy (Some (JObj kvs)) = (kvs \<noteq> [])"

text \<open>
  \<^verbatim>\<open>_normalize_rights\<close>: an object is taken as it is, a string is parsed with
  \<^verbatim>\<open>json.loads\<close> (a parameter here; \<open>None\<close> when it raises) and taken if it
  parses to an object, anything else is the empty dict.
\<close>

definition normalize_rights :: "(string \<Rightarrow> jval option) \<Rightarrow> jval \<Rightarrow> rights_dict" where
  "normalize_rights json_loads v =
     (case v of
        JObj d \<Rightarrow> d
      | JStr x \<Rightarrow>
          (let y = strip x in
           if y = [] then []
           else case json_loads y of Some (JObj d) \<Rightarrow> d | _ \<Rightarrow> [])
      | _ \<Rightarrow> [])"

text \<open>The inner loop of \<^verbatim>\<open>get_user_rights\<close> over the items of one role.\<close>

fun merge_items :: "rights_dict \<Rightarrow> (string \<rightharpoonup> jval) \<Rightarrow> (string \<rightharpoonup> jval)" where
  "merge_items [] merged = merged"
| "merge_items ((k, val) # rest) merged =
     (if k = ''all'' then merge_items rest merged
      else case val of
        JBool b \<Rightarrow>
          if b then merge_items rest (merged(k \<mapsto> JBool True))
          else merge_items rest (case merged k of None \<Rightarrow> merged(k \<mapsto> JBool False)
                                              | Some _ \<Rightarrow> merged)
      | _ \<Rightarrow> merge_items rest (merged(k \<mapsto> val)))"

text \<open>The outer loop, over the normalised rights of the user's roles.\<close>

fun merge_roles :: "rights_dict list \<Rightarrow> (string \<rightharpoonup> jval) \<Rightarrow> (string \<rightharpoonup> jval)" where
  "merge_roles [] merged = merged"
| "merge_roles (d # ds) merged =
     (if map_of d ''all'' = Some (JBool True) then [''all'' \<mapsto> JBool True]
      else merge_roles ds (merge_items d merged))"

record role_row =
  role_id :: nat
  role_name :: string
  role_rights :: jval

record user_role_row =
  ur_user :: nat
  ur_role :: nat

text \<open>
  \<^verbatim>\<open>get_user_rights\<close>: the query joins the roles to the user's rows of
  \<^verbatim>\<open>user_roles\<close>; it has no ORDER BY, the order here is that of the tables.
  \<open>user_role_rights\<close> is the list of the dicts \<^verbatim>\<open>d\<close> that the loop goes through.
\<close>

definition user_role_rights ::
  "(string \<Rightarrow> jval option) \<Rightarrow> role_row list \<Rightarrow> user_role_row list \<Rightarrow> nat \<Rightarrow> rights_dict list" where
  "user_role_rights json_loads roles user_roles user =
     map (normalize_rights json_loads \<circ> role_rights)
       (concat (map (\<lambda>r. map (\<lambda>ur. r)
                            (filter (\<lambda>ur. ur_role ur = role_id r \<and> ur_user ur = user) user_roles))
                 roles))"

definition get_user_rights ::
  "(string \<Rightarrow> jval option) \<Rightarrow> role_row list \<Rightarrow> user_role_row list \<Rightarrow> nat \<Rightarrow> (string \<rightharpoonup> jval)" where
  "get_user_rights json_loads roles user_roles user =
     merge_roles (user_role_rights json_loads roles user_roles user) Map.empty"

record session =
  sess_user :: nat
  sess_roles :: "string list"
  sess_rights :: "string \<rightharpoonup> jval"

text \<open>\<^verbatim>\<open>Session.can\<close>; \<^verbatim>\<open>self.rights or {}\<close> is the map itself.\<close>

definition can :: "session \<Rightarrow> string \<Rightarrow> bool" where
  "can sess perm =
     (let d = sess_rights sess in
      if d ''all'' = Some (JBool True) then True else truthy (d perm))"

section \<open>Guarded entry points\<close>

text \<open>
  The engine functions take a user, not a session; the session is checked by the
  handlers of the main window (\<^verbatim>\<open>app/gui_main.py\<close>) that call them. A handler
  returns nothing; the model returns the store and, when the engine function was
  called, its result. The selection in a list view is an optional id, the message boxes
  are left out, and the refresh of the views after the call reads the store, except
  \<^verbatim>\<open>_load_reservations\<close>, which runs the expiry sweep again; an exception that
  leaves the engine function leaves the handler too, before the refresh. One run of a
  handler reads the clock as one instant.
\<close>

definition load_reservations :: "session \<Rightarrow> datetime \<Rightarrow> db \<Rightarrow> db" where
  "load_reservations sess now s =
     (let s1 = fst (expire_old_reservations now s) in
      if can sess ''manage_reservations'' then fst (expire_old_reservations now s1)
      else if can sess ''manage_own_reservations'' then fst (expire_old_reservations now s1)
      else s1)"

definition ui_issue_loan ::
  "session \<Rightarrow> date \<Rightarrow> string \<Rightarrow> string \<Rightarrow> db \<Rightarrow> db \<times> nat outcome option" where
  "ui_issue_loan sess today code login s =
     (if \<not> can sess ''manage_loans'' then (s, None)
      else let (s', res) = issue_loan today code login (sess_user sess) s in (s', Some res))"

definition ui_return_loan ::
  "session \<Rightarrow> date \<Rightarrow> nat option \<Rightarrow> db \<Rightarrow> db \<times> unit outcome option" where
  "ui_return_loan sess today sel s =
     (if \<not> can sess ''manage_loans'' then (s, None)
      else case sel of
        None \<Rightarrow> (s, None)
      | Some loan_id \<Rightarrow>
          let (s', res) = return_loan today loan_id (sess_user sess) s in (s', Some res))"

definition ui_update_overdue :: "session \<Rightarrow> date \<Rightarrow> db \<Rightarrow> db \<times> nat option" where
  "ui_update_overdue sess today s =
     (if \<not> can sess ''manage_loans'' then (s, None)
      else let (s', n) = update_overdue_statuses today s in (s', Some n))"

text \<open>
  \<^verbatim>\<open>ReserveDialog\<close>: every press of its button with a branch chosen and a date that
  parses calls \<^verbatim>\<open>create_reservation\<close>; the first success closes the dialog.
\<close>

fun reserve_dialog ::
  "date \<Rightarrow> datetime \<Rightarrow> nat \<Rightarrow> nat \<Rightarrow> (nat \<times> date) list \<Rightarrow> db \<Rightarrow> db \<times> nat outcome option" where
  "reserve_dialog today now reader book_id [] s = (s, None)"
| "reserve_dialog today now reader book_id ((branch_id, pickup) # rest) s =
     (case create_reservation today now reader book_id branch_id pickup s of
        (s', Ok rid) \<Rightarrow> (s', Some (Ok rid))
      | (s', res) \<Rightarrow>
          (case reserve_dialog today now reader book_id rest s' of
             (s'', None) \<Rightarrow> (s'', Some res)
           | (s'', Some res') \<Rightarrow> (s'', Some res')))"

definition ui_reserve_book ::
  "session \<Rightarrow> date \<Rightarrow> datetime \<Rightarrow> nat option \<Rightarrow> (nat \<times> date) list \<Rightarrow> db
     \<Rightarrow> db \<times> nat outcome option" where
  "ui_reserve_book sess today now sel presses s =
     (if \<not> can sess ''create_reservation'' then (s, None)
      else case sel of
        None \<Rightarrow> (s, None)
      | Some book_id \<Rightarrow>
          if book_id = 0 then (s, None)
          else
            (case reserve_dialog today now (sess_user sess) book_id presses s of
               (s', Some (Ok rid)) \<Rightarrow> (load_reservations sess now s', Some (Ok rid))
             | (s', res) \<Rightarrow> (s', res)))"

definition ui_cancel_reservation ::
  "session \<Rightarrow> datetime \<Rightarrow> nat option \<Rightarrow> db \<Rightarrow> db \<times> unit outcome option" where
  "ui_cancel_reservation sess now sel s =
     (if \<not> can sess ''manage_own_reservations'' then (s, None)
      else case sel of
        None \<Rightarrow> (s, None)
      | Some rid \<Rightarrow>
          if rid = 0 then (s, None)
          else let (s', res) = cancel_reservation now (sess_user sess) rid s
               in (load_reservations sess now s', Some res))"

definition ui_extend_reservation ::
  "session \<Rightarrow> datetime \<Rightarrow> nat option \<Rightarrow> db \<Rightarrow> db \<times> date outcome option" where
  "ui_extend_reservation sess now sel s =
     (if \<not> can sess ''manage_own_reservations'' then (s, None)
      else case sel of
        None \<Rightarrow> (s, None)
      | Some rid \<Rightarrow>
          if rid = 0 then (s, None)
          else
            (case extend_reservation now (sess_user sess) rid s of
               (s', Exc e) \<Rightarrow> (s', Some (Exc e))
             | (s', res) \<Rightarrow> (load_reservations sess now s', Some res)))"

definition ui_fulfill_reservation ::
  "session \<Rightarrow> date \<Rightarrow> datetime \<Rightarrow> nat option \<Rightarrow> db \<Rightarrow> db \<times> date outcome option" where
  "ui_fulfill_reservation sess today now sel s =
     (if \<not> can sess ''manage_reservations'' then (s, None)
      else case sel of
        None \<Rightarrow> (s, None)
      | Some rid \<Rightarrow>
          if rid = 0 then (s, None)
          else
            (case fulfill_reservation today now (sess_user sess) rid 14 s of
               (s', Exc e) \<Rightarrow> (s', Some (Exc e))
             | (s', res) \<Rightarrow> (load_reservations sess now s', Some res)))"

section \<open>Holders of a copy\<close>

definition expirable :: "datetime \<Rightarrow> reservation_row \<Rightarrow> bool" where
  "expirable now r \<longleftrightarrow> r_status r = ''active'' \<and> r_expires_at r < now"

definition loan_holds :: "nat \<Rightarrow> loan_row \<Rightarrow> bool" where
  "loan_holds c l \<longleftrightarrow> l_copy l = c \<and> l_status l \<in> set ACTIVE_LOAN_STATUSES"

definition reservation_holds :: "nat \<Rightarrow> reservation_row \<Rightarrow> bool" where
  "reservation_holds c r \<longleftrightarrow> r_copy r = c \<and> r_status r = ''active''"

text \<open>
  The number of rows that hold copy \<open>c\<close>: its open or overdue loans and its active
  reservations.
\<close>

definition holders :: "db \<Rightarrow> nat \<Rightarrow> nat" where
  "holders s c =
     length (filter (loan_holds c) (loans s)) +
     length (filter (reservation_holds c) (reservations s))"

text \<open>
  The primary key of the reservations: ids are unique and below the sequence.
\<close>

definition reservation_keys_ok :: "db \<Rightarrow> bool" where
  "reservation_keys_ok s \<longleftrightarrow>
     distinct (map r_id (reservations s)) \<and>
     (\<forall>r \<in> set (reservations s). r_id r < next_reservation_id s)"

text \<open>
  A store is consistent when the reservation keys are in order, no copy has two
  holders, and an available copy has none.
\<close>

definition store_consistent :: "db \<Rightarrow> bool" where
  "store_consistent s \<longleftrightarrow>
     reservation_keys_ok s \<and>
     (\<forall>c. holders s c \<le> 1) \<and>
     (\<forall>c \<in> set (copies s). c_status c = ''available'' \<longrightarrow> holders s (c_id c) = 0)"

section \<open>Auxiliary notions\<close>

text \<open>
  The WHERE clause of the locking read: a copy of the book, available, at a location
  of the branch.
\<close>

definition available_at :: "nat \<Rightarrow> nat \<Rightarrow> db \<Rightarrow> copy_row \<Rightarrow> bool" where
  "available_at book_id branch_id s c \<longleftrightarrow>
     c_book c = book_id \<and> c_status c = ''available'' \<and>
     (\<exists>l \<in> set (locations s). c_location c = Some (loc_id l) \<and> loc_branch l = branch_id)"

text \<open>What the sweep at \<open>now\<close> on store \<open>s\<close> does to one reservation row.\<close>

definition sweep_row :: "datetime \<Rightarrow> db \<Rightarrow> reservation_row \<Rightarrow> reservation_row" where
  "sweep_row now s r =
     (if r_id r \<in> set (map r_id (filter (expirable now) (reservations s)))
      then r\<lparr>r_status := ''expired''\<rparr> else r)"

text \<open>What the sweep at \<open>now\<close> on store \<open>s\<close> does to one copy row.\<close>

definition sweep_copy :: "datetime \<Rightarrow> db \<Rightarrow> copy_row \<Rightarrow> copy_row" where
  "sweep_copy now s c =
     (if c_status c = ''reserved'' \<and>
         (\<exists>r \<in> set (reservations s). expirable now r \<and> r_copy r = c_id c)
      then c\<lparr>c_status := ''available''\<rparr> else c)"

text \<open>
  Reservation \<open>rid\<close> has been extended for good: its id is below the sequence, so no
  new row takes it, and every row under it has the flag set.
\<close>

definition extended_for_good :: "nat \<Rightarrow> db \<Rightarrow> bool" where
  "extended_for_good rid s \<longleftrightarrow>
     rid < next_reservation_id s \<and>
     (\<forall>r \<in> set (reservations s). r_id r = rid \<longrightarrow> r_extended_once r)"

text \<open>One pass of the inner loop of \<^verbatim>\<open>get_user_rights\<close>.\<close>

definition merge_item :: "string \<Rightarrow> jval \<Rightarrow> (string \<rightharpoonup> jval) \<Rightarrow> (string \<rightharpoonup> jval)" where
  "merge_item k val merged =
     (if k = ''all'' then merged
      else case val of
        JBool b \<Rightarrow>
          if b then merged(k \<mapsto> JBool True)
          else (case merged k of None \<Rightarrow> merged(k \<mapsto> JBool False) | Some _ \<Rightarrow> merged)
      | _ \<Rightarrow> merged(k \<mapsto> val))"

section \<open>Example stores and sessions\<close>

text \<open>
  Three copies of two books at one branch: one available, one reserved by an active
  reservation for day 10, one on loan until day 14.
\<close>

definition demo_db :: db where
  "demo_db =
     \<lparr>copies =
        [\<lparr>c_id = 1, c_inventory_code = ''INV-0001'', c_status = ''available'',
          c_book = 1, c_location = Some 1\<rparr>,
         \<lparr>c_id = 2, c_inventory_code = ''INV-0002'', c_status = ''reserved'',
          c_book = 1, c_location = Some 1\<rparr>,
         \<lparr>c_id = 3, c_inventory_code = ''INV-0003'', c_status = ''loaned'',
          c_book = 2, c_location = Some 1\<rparr>],
      locations = [\<lparr>loc_id = 1, loc_branch = 1\<rparr>],
      users = [\<lparr>u_id = 1, u_login = ''kap213''\<rparr>, \<lparr>u_id = 2, u_login = ''lib''\<rparr>],
      loans =
        [\<lparr>l_id = 1, l_status = ''open'', l_start_date = 1, l_due_date = 14,
          l_return_date = None, l_copy = 3, l_reader = 1, l_librarian = 2\<rparr>],
      reservations =
        [\<lparr>r_id = 1, r_status = ''active'', r_pickup_date = 10, r_created_at = 0,
          r_expires_at = end_of_day 10, r_extended_once = False, r_reader = 1,
          r_copy = 2, r_branch = 1\<rparr>],
      next_loan_id = 2,
      next_reservation_id = 2\<rparr>"

text \<open>The same store after the copy on loan has been marked lost.\<close>

definition lost_on_loan_db :: db where
  "lost_on_loan_db =
     demo_db\<lparr>copies := map (\<lambda>c. if c_id c = 3 then c\<lparr>c_status := ''lost''\<rparr> else c)
                          (copies demo_db)\<rparr>"

text \<open>
  The example store after a catalogue edit has set the reserved copy to available and
  the first copy to lost, the reservation of the former still active.
\<close>

definition stale_hold_db :: db where
  "stale_hold_db =
     demo_db\<lparr>copies := map (\<lambda>c. if c_id c = 1 then c\<lparr>c_status := ''lost''\<rparr>
                               else if c_id c = 2 then c\<lparr>c_status := ''available''\<rparr> else c)
                          (copies demo_db)\<rparr>"

text \<open>
  Four stores of a schedule in which a sweep overlaps a reservation. The first is the
  example store after copy 1 has been issued on day 9.
\<close>

definition after_issue_db :: db where
  "after_issue_db =
     \<lparr>copies =
        [\<lparr>c_id = 1, c_inventory_code = ''INV-0001'', c_status = ''loaned'',
          c_book = 1, c_location = Some 1\<rparr>,
         \<lparr>c_id = 2, c_inventory_code = ''INV-0002'', c_status = ''reserved'',
          c_book = 1, c_location = Some 1\<rparr>,
         \<lparr>c_id = 3, c_inventory_code = ''INV-0003'', c_status = ''loaned'',
          c_book = 2, c_location = Some 1\<rparr>],
      locations = [\<lparr>loc_id = 1, loc_branch = 1\<rparr>],
      users = [\<lparr>u_id = 1, u_login = ''kap213''\<rparr>, \<lparr>u_id = 2, u_login = ''lib''\<rparr>],
      loans =
        [\<lparr>l_id = 1, l_status = ''open'', l_start_date = 1, l_due_date = 14,
          l_return_date = None, l_copy = 3, l_reader = 1, l_librarian = 2\<rparr>,
         \<lparr>l_id = 2, l_status = ''open'', l_start_date = 9, l_due_date = 23,
          l_return_date = None, l_copy = 1, l_reader = 1, l_librarian = 2\<rparr>],
      reservations =
        [\<lparr>r_id = 1, r_status = ''active'', r_pickup_date = 10, r_created_at = 0,
          r_expires_at = end_of_day 10, r_extended_once = False, r_reader = 1,
          r_copy = 2, r_branch = 1\<rparr>],
      next_loan_id = 3,
      next_reservation_id = 2\<rparr>"

text \<open>
  The second: reservation 1 expired, copy 2 reserved again, by the new reservation 2
  made one microsecond after the end of day 10.
\<close>

definition after_create_db :: db where
  "after_create_db =
     after_issue_db
       \<lparr>reservations :=
          [\<lparr>r_id = 1, r_status = ''expired'', r_pickup_date = 10, r_created_at = 0,
            r_expires_at = end_of_day 10, r_extended_once = False, r_reader = 1,
            r_copy = 2, r_branch = 1\<rparr>,
           \<lparr>r_id = 2, r_status = ''active'', r_pickup_date = 11,
            r_created_at = end_of_day 10 + 1,
            r_expires_at = end_of_day 11, r_extended_once = False, r_reader = 1,
            r_copy = 2, r_branch = 1\<rparr>],
        next_reservation_id := 3\<rparr>"

text \<open>The third: copy 2 available, reservation 2 still active.\<close>

definition after_stale_update_db :: db where
  "after_stale_update_db =
     after_create_db
       \<lparr>copies := map (\<lambda>c. if c_id c = 2 then c\<lparr>c_status := ''available''\<rparr> else c)
                     (copies after_create_db)\<rparr>"

text \<open>The fourth: copy 2 on loan under loan 3, reservation 2 still active.\<close>

definition two_holders_db :: db where
  "two_holders_db =
     after_stale_update_db
       \<lparr>copies := map (\<lambda>c. if c_id c = 2 then c\<lparr>c_status := ''loaned''\<rparr> else c)
                     (copies after_stale_update_db),
        loans := loans after_stale_update_db @
          [\<lparr>l_id = 3, l_status = ''open'', l_start_date = 11, l_due_date = 25,
            l_return_date = None, l_copy = 2, l_reader = 1, l_librarian = 2\<rparr>],
        next_loan_id := 4\<rparr>"

text \<open>
  Three roles and their holders. User 1 has the first two roles: the first denies
  \<^verbatim>\<open>manage_loans\<close> and grants \<^verbatim>\<open>create_reservation\<close>, the second denies the
  latter and grants \<^verbatim>\<open>manage_own_reservations\<close>. \<open>reader_session\<close> is the session
  \<^verbatim>\<open>authenticate\<close> builds for user 1.
\<close>

definition demo_roles :: "role_row list" where
  "demo_roles =
     [\<lparr>role_id = 1, role_name = ''Reader'',
       role_rights = JObj [(''manage_loans'', JBool False), (''create_reservation'', JBool True)]\<rparr>,
      \<lparr>role_id = 2, role_name = ''Member'',
       role_rights = JObj [(''create_reservation'', JBool False),
                           (''manage_own_reservations'', JBool True)]\<rparr>,
      \<lparr>role_id = 3, role_name = ''Admin'', role_rights = JObj [(''all'', JBool True)]\<rparr>]"

definition demo_user_roles :: "user_role_row list" where
  "demo_user_roles =
     [\<lparr>ur_user = 1, ur_role = 1\<rparr>, \<lparr>ur_user = 1, ur_role = 2\<rparr>, \<lparr>ur_user = 3, ur_role = 3\<rparr>,
      \<lparr>ur_user = 3, ur_role = 1\<rparr>]"

definition reader_session :: session where
  "reader_session =
     \<lparr>sess_user = 1, sess_roles = [''Reader'', ''Member''],
      sess_rights = get_user_rights (\<lambda>x. None) demo_roles demo_user_roles 1\<rparr>"

section \<open>Properties of the bulk updates\<close>

lemma filter_none_after_map:
  "filter P (map (\<lambda>x. if P x then f x else x) xs) = []" if "\<And>x. \<not> P (f x)"
  using that by (induction xs) auto

text \<open>
  Claim C9. \<^verbatim>\<open>update_overdue_statuses\<close> turns into overdue exactly the loans that
  are open with a due date before today, every other loan and every other table staying
  as it was, and returns the number of those loans; called again on the resulting store
  with the same date it changes nothing and returns 0.
\<close>

theorem update_overdue_statuses_idempotent:
  "(let s' = fst (update_overdue_statuses today s); n = snd (update_overdue_statuses today s) in
      loans s' = map (\<lambda>l. if l_status l = ''open'' \<and> l_due_date l < today
                           then l\<lparr>l_status := ''overdue''\<rparr> else l) (loans s)
    \<and> n = length (filter (\<lambda>l. l_status l = ''open'' \<and> l_due_date l < today) (loans s))
    \<and> copies s' = copies s \<and> reservations s' = reservations s
    \<and> update_overdue_statuses today s' = (s', 0))"
proof -
  let ?P = "\<lambda>l. l_status l = ''open'' \<and> l_due_date l < today"
  let ?f = "\<lambda>l. l\<lparr>l_status := ''overdue''\<rparr>"
  have none: "filter ?P (map (\<lambda>l. if ?P l then ?f l else l) (loans s)) = []"
    by (rule filter_none_after_map) simp
  have idem: "map (\<lambda>l. if ?P l then ?f l else l) (map (\<lambda>l. if ?P l then ?f l else l) (loans s))
             = map (\<lambda>l. if ?P l then ?f l else l) (loans s)"
    by (induction "loans s") auto
  show ?thesis
    unfolding Let_def update_overdue_statuses_def using none idem by simp
qed

theorem update_overdue_statuses_idempotent_witness:
  "snd (update_overdue_statuses 15 demo_db) = 1 \<and>
   map l_status (loans (fst (update_overdue_statuses 15 demo_db))) = [''overdue''] \<and>
   snd (update_overdue_statuses 15 (fst (update_overdue_statuses 15 demo_db))) = 0 \<and>
   snd (update_overdue_statuses 14 demo_db) = 0"
  using update_overdue_statuses_idempotent[of 15 demo_db]
  by (simp add: Let_def demo_db_def update_overdue_statuses_def)

lemma key_in_filtered_keys:
  assumes "distinct (map f xs)" and "x \<in> set xs"
  shows "f x \<in> set (map f (filter P xs)) \<longleftrightarrow> P x"
proof
  assume "f x \<in> set (map f (filter P xs))"
  then obtain y where y: "y \<in> set xs" "P y" "f y = f x" by auto
  from assms(1) have "inj_on f (set xs)" by (simp add: distinct_map)
  with y assms(2) have "y = x" by (auto dest: inj_onD)
  with y show "P x" by simp
next
  assume "P x" with assms(2) show "f x \<in> set (map f (filter P xs))" by auto
qed

lemma expire_reservations_eq:
  "reservations (fst (expire_old_reservations now s)) =
     map (\<lambda>r. if r_id r \<in> set (map r_id (filter (expirable now) (reservations s)))
               then r\<lparr>r_status := ''expired''\<rparr> else r) (reservations s)"
proof (cases "filter (expirable now) (reservations s) = []")
  case True
  then show ?thesis
    by (simp add: expire_old_reservations_def expirable_def[abs_def] map_idI)
next
  case False
  then show ?thesis
    by (simp add: expire_old_reservations_def expirable_def[abs_def] Let_def)
qed

lemma expire_copies_eq:
  "copies (fst (expire_old_reservations now s)) =
     map (\<lambda>c. if c_status c = ''reserved'' \<and>
                  (\<exists>r \<in> set (reservations s). expirable now r \<and> r_copy r = c_id c)
               then c\<lparr>c_status := ''available''\<rparr> else c) (copies s)"
proof (cases "filter (expirable now) (reservations s) = []")
  case True
  then have "\<forall>r \<in> set (reservations s). \<not> expirable now r"
    by (simp add: filter_empty_conv)
  then have "map (\<lambda>c. if c_status c = ''reserved'' \<and>
                  (\<exists>r \<in> set (reservations s). expirable now r \<and> r_copy r = c_id c)
               then c\<lparr>c_status := ''available''\<rparr> else c) (copies s) = copies s"
    by (intro map_idI) auto
  with True show ?thesis
    by (simp add: expire_old_reservations_def expirable_def[abs_def])
next
  case False
  have mem: "c_id c \<in> set (map r_copy (filter (expirable now) (reservations s))) \<longleftrightarrow>
             (\<exists>r \<in> set (reservations s). expirable now r \<and> r_copy r = c_id c)" for c
    by (force simp: image_iff)
  have "copies (fst (expire_old_reservations now s)) =
     map (\<lambda>c. if c_id c \<in> set (map r_copy (filter (expirable now) (reservations s))) \<and>
                  c_status c = ''reserved''
               then c\<lparr>c_status := ''available''\<rparr> else c) (copies s)"
    using False by (simp add: expire_old_reservations_def expirable_def[abs_def] Let_def)
  also have "\<dots> = map (\<lambda>c. if c_status c = ''reserved'' \<and>
                  (\<exists>r \<in> set (reservations s). expirable now r \<and> r_copy r = c_id c)
               then c\<lparr>c_status := ''available''\<rparr> else c) (copies s)"
    by (rule map_cong[OF refl]) (simp only: mem conj_commute)
  finally show ?thesis .
qed

lemma expire_count:
  "snd (expire_old_reservations now s) = length (filter (expirable now) (reservations s))"
  by (simp add: expire_old_reservations_def expirable_def[abs_def] Let_def)

lemma expire_none_left:
  "filter (expirable now) (reservations (fst (expire_old_reservations now s))) = []"
  unfolding expire_reservations_eq filter_empty_conv
  by (auto simp: expirable_def)

lemma expire_twice:
  "expire_old_reservations now (fst (expire_old_reservations now s)) =
     (fst (expire_old_reservations now s), 0)"
  using expire_none_left[of now s]
  by (simp add: expire_old_reservations_def[of now "fst (expire_old_reservations now s)"]
        expirable_def[abs_def] Let_def)

lemma expire_other_fields:
  "loans (fst (expire_old_reservations now s)) = loans s"
  "users (fst (expire_old_reservations now s)) = users s"
  "locations (fst (expire_old_reservations now s)) = locations s"
  "next_loan_id (fst (expire_old_reservations now s)) = next_loan_id s"
  "next_reservation_id (fst (expire_old_reservations now s)) = next_reservation_id s"
  by (simp_all add: expire_old_reservations_def Let_def)

text \<open>
  Claim C3. \<^verbatim>\<open>expire_old_reservations\<close> turns into expired exactly the reservations
  that are active with an expiry timestamp before \<open>now\<close> (ids being unique), sets to
  available exactly the copies that are still reserved and are the copy of such a
  reservation, every other copy keeping its status, and returns the number of those
  reservations; called again on the resulting store with the same \<open>now\<close> it changes
  nothing and returns 0.
\<close>

theorem expire_old_reservations_spec:
  "(let s' = fst (expire_old_reservations now s); n = snd (expire_old_reservations now s) in
      (distinct (map r_id (reservations s)) \<longrightarrow>
         reservations s' =
           map (\<lambda>r. if r_status r = ''active'' \<and> r_expires_at r < now
                     then r\<lparr>r_status := ''expired''\<rparr> else r) (reservations s))
    \<and> copies s' =
        map (\<lambda>c. if c_status c = ''reserved'' \<and>
                     (\<exists>r \<in> set (reservations s).
                         r_status r = ''active'' \<and> r_expires_at r < now \<and> r_copy r = c_id c)
                  then c\<lparr>c_status := ''available''\<rparr> else c) (copies s)
    \<and> n = length (filter (\<lambda>r. r_status r = ''active'' \<and> r_expires_at r < now) (reservations s))
    \<and> loans s' = loans s
    \<and> expire_old_reservations now s' = (s', 0))"
proof -
  have res: "reservations (fst (expire_old_reservations now s)) =
           map (\<lambda>r. if r_status r = ''active'' \<and> r_expires_at r < now
                     then r\<lparr>r_status := ''expired''\<rparr> else r) (reservations s)"
    if d: "distinct (map r_id (reservations s))"
    unfolding expire_reservations_eq
    by (rule map_cong[OF refl]) (simp add: key_in_filtered_keys[OF d] expirable_def del: set_map)
  show ?thesis
    unfolding Let_def
    using res expire_copies_eq[of now s] expire_count[of now s] expire_twice[of now s]
    by (simp add: expire_other_fields expirable_def[abs_def])
qed

theorem expire_old_reservations_spec_witness:
  "distinct (map r_id (reservations demo_db)) \<and>
   snd (expire_old_reservations (end_of_day 10 + 1) demo_db) = 1 \<and>
   map r_status (reservations (fst (expire_old_reservations (end_of_day 10 + 1) demo_db)))
     = [''expired''] \<and>
   map c_status (copies (fst (expire_old_reservations (end_of_day 10 + 1) demo_db)))
     = [''available'', ''available'', ''loaned''] \<and>
   snd (expire_old_reservations (end_of_day 10 + 1)
          (fst (expire_old_reservations (end_of_day 10 + 1) demo_db))) = 0 \<and>
   expire_old_reservations (end_of_day 10) demo_db = (demo_db, 0)"
  using expire_old_reservations_spec[of "end_of_day 10 + 1" demo_db]
  by (simp add: Let_def demo_db_def expire_old_reservations_def)

lemma expire_old_reservations_split:
  "expire_old_reservations now s =
     (let sel = sweep_select now s
      in if fst sel = [] then (s, 0) else (sweep_update sel s, length (fst sel)))"
  by (simp add: expire_old_reservations_def sweep_select_def sweep_update_def Let_def)

section \<open>Loan engine: return\<close>

lemma find_map_same_key:
  assumes "\<And>x. key (g x) = key x"
  shows "find (\<lambda>x. key x = k) (map g xs) = map_option g (find (\<lambda>x. key x = k) xs)"
  using assms by (induction xs) auto

lemma find_Some_key: "find (\<lambda>x. key x = k) xs = Some y \<Longrightarrow> key y = k \<and> y \<in> set xs"
  by (induction xs) (auto split: if_splits)

lemma find_None_key: "find (\<lambda>x. key x = k) xs = None \<longleftrightarrow> (\<forall>x \<in> set xs. key x \<noteq> k)"
  by (induction xs) auto

text \<open>
  Claim C10. Returning a loan that is open or overdue, by a librarian who has a user
  row, succeeds whatever the status of its copy (no condition on it is assumed, the
  copy row only has to exist) and sets the status of that copy to available, for
  example of a copy marked lost while on loan; the loan becomes returned, with today
  as return date and the caller as librarian. And whenever the call succeeds, every
  row of the copy of the loan has status available.
\<close>

theorem return_loan_resets_copy:
  assumes "find (\<lambda>l. l_id l = loan_id) (loans s) = Some loan"
    and "l_status loan = ''open'' \<or> l_status loan = ''overdue''"
    and "find (\<lambda>c. c_id c = l_copy loan) (copies s) = Some c0"
  shows "(user_exists s librarian \<longrightarrow>
          (\<exists>s'. return_loan today loan_id librarian s = (s', Ok ()) \<and>
             copies s' = map (\<lambda>c. if c_id c = l_copy loan then c0\<lparr>c_status := ''available''\<rparr> else c)
                           (copies s) \<and>
             (\<exists>c \<in> set (copies s'). c_id c = l_copy loan) \<and>
             (\<forall>c \<in> set (copies s'). c_id c = l_copy loan \<longrightarrow> c_status c = ''available'') \<and>
             (\<forall>l \<in> set (loans s'). l_id l = loan_id \<longrightarrow>
                 l_status l = ''returned'' \<and> l_return_date l = Some today \<and>
                 l_librarian l = librarian))) \<and>
         (\<forall>t. return_loan today loan_id librarian s = (t, Ok ()) \<longrightarrow>
             user_exists s librarian \<and>
             (\<exists>c \<in> set (copies t). c_id c = l_copy loan) \<and>
             (\<forall>c \<in> set (copies t). c_id c = l_copy loan \<longrightarrow> c_status c = ''available''))"
proof -
  from find_Some_key[OF assms(3)] have c0: "c_id c0 = l_copy loan" "c0 \<in> set (copies s)"
    by auto
  from find_Some_key[OF assms(1)] have l0: "l_id loan = loan_id" by auto
  let ?loan' = "loan\<lparr>l_status := ''returned'', l_return_date := Some today,
                        l_librarian := librarian\<rparr>"
  let ?s' = "save_copy (c0\<lparr>c_status := ''available''\<rparr>) (save_loan ?loan' s)"
  have res: "return_loan today loan_id librarian s = (?s', Ok ())" if "user_exists s librarian"
    using assms that by (auto simp: return_loan_def save_loan_def Let_def)
  have nores: "\<exists>e. return_loan today loan_id librarian s = (s, Exc e)"
    if "\<not> user_exists s librarian"
    using assms that by (auto simp: return_loan_def Let_def)
  have cps: "copies ?s' =
      map (\<lambda>c. if c_id c = l_copy loan then c0\<lparr>c_status := ''available''\<rparr> else c) (copies s)"
    using c0 by (simp add: save_copy_def save_loan_def)
  have ex: "\<exists>c \<in> set (copies ?s'). c_id c = l_copy loan"
  proof -
    from c0 have "c0\<lparr>c_status := ''available''\<rparr> \<in> set (copies ?s')"
      unfolding cps set_map by (intro image_eqI[where x = c0]) simp_all
    with c0 show ?thesis by (intro bexI[where x = "c0\<lparr>c_status := ''available''\<rparr>"]) simp_all
  qed
  have al: "\<forall>c \<in> set (copies ?s'). c_id c = l_copy loan \<longrightarrow> c_status c = ''available''"
    unfolding cps by auto
  have ln: "\<forall>l \<in> set (loans ?s'). l_id l = loan_id \<longrightarrow>
               l_status l = ''returned'' \<and> l_return_date l = Some today \<and>
               l_librarian l = librarian"
    using l0 by (auto simp: save_copy_def save_loan_def)
  have first: "user_exists s librarian \<longrightarrow>
          (\<exists>s'. return_loan today loan_id librarian s = (s', Ok ()) \<and>
             copies s' = map (\<lambda>c. if c_id c = l_copy loan then c0\<lparr>c_status := ''available''\<rparr> else c)
                           (copies s) \<and>
             (\<exists>c \<in> set (copies s'). c_id c = l_copy loan) \<and>
             (\<forall>c \<in> set (copies s'). c_id c = l_copy loan \<longrightarrow> c_status c = ''available'') \<and>
             (\<forall>l \<in> set (loans s'). l_id l = loan_id \<longrightarrow>
                 l_status l = ''returned'' \<and> l_return_date l = Some today \<and>
                 l_librarian l = librarian))"
    using res cps ex al ln by blast
  have second: "user_exists s librarian \<and>
             (\<exists>c \<in> set (copies t). c_id c = l_copy loan) \<and>
             (\<forall>c \<in> set (copies t). c_id c = l_copy loan \<longrightarrow> c_status c = ''available'')"
    if ok: "return_loan today loan_id librarian s = (t, Ok ())" for t
  proof -
    from ok nores have u: "user_exists s librarian" by auto
    with res ok have "t = ?s'" by simp
    with u ex al show ?thesis by simp
  qed
  from first second show ?thesis by blast
qed

theorem return_loan_resets_copy_witness:
  "map c_status (copies lost_on_loan_db) = [''available'', ''reserved'', ''lost''] \<and>
   user_exists lost_on_loan_db 2 \<and>
   snd (return_loan 20 1 2 lost_on_loan_db) = Ok () \<and>
   map c_status (copies (fst (return_loan 20 1 2 lost_on_loan_db)))
     = [''available'', ''reserved'', ''available''] \<and>
   map l_status (loans (fst (return_loan 20 1 2 lost_on_loan_db))) = [''returned''] \<and>
   return_loan 20 1 99 lost_on_loan_db = (lost_on_loan_db, Exc IntegrityError)"
  using return_loan_resets_copy[of 1 lost_on_loan_db
      "\<lparr>l_id = 1, l_status = ''open'', l_start_date = 1, l_due_date = 14,
          l_return_date = None, l_copy = 3, l_reader = 1, l_librarian = 2\<rparr>"
      "\<lparr>c_id = 3, c_inventory_code = ''INV-0003'', c_status = ''lost'',
          c_book = 2, c_location = Some 1\<rparr>" 2 20]
  by (simp add: lost_on_loan_db_def demo_db_def return_loan_def save_loan_def save_copy_def
        user_exists_def)

section \<open>Loan engine: issue\<close>

lemma loan_create_Some:
  "loan_create row s = (s1, Some lid) \<Longrightarrow>
     lid = next_loan_id s \<and>
     s1 = s\<lparr>loans := loans s @ [row\<lparr>l_id := next_loan_id s\<rparr>],
            next_loan_id := Suc (next_loan_id s)\<rparr> \<and>
     user_exists s (l_reader row) \<and> user_exists s (l_librarian row)"
  by (auto simp: loan_create_def Let_def split: if_splits)

lemma loan_create_None:
  "loan_create row s = (s1, None) \<Longrightarrow> s1 = s\<lparr>next_loan_id := Suc (next_loan_id s)\<rparr>"
  by (auto simp: loan_create_def Let_def split: if_splits)

lemma rollback_sequences [simp]:
  "rollback s (s\<lparr>next_loan_id := n\<rparr>) = s\<lparr>next_loan_id := n\<rparr>"
  "rollback s (s\<lparr>next_reservation_id := m\<rparr>) = s\<lparr>next_reservation_id := m\<rparr>"
  by (simp_all add: rollback_def)

lemma date_plus_days_Some:
  "date_plus_days d n = Some e \<Longrightarrow> e = d + n \<and> date_ok (d + n) \<and> \<bar>n\<bar> \<le> 999999999"
  by (auto simp: date_plus_days_def split: if_splits)

lemma find_user_exists:
  "find P (users s) = Some (u::user_row) \<Longrightarrow> user_exists s (u_id u)"
proof -
  assume "find P (users s) = Some u"
  then have "u \<in> set (users s)" by (auto simp: find_Some_iff)
  then show ?thesis unfolding user_exists_def by (intro bexI[where x = u]) simp_all
qed

lemma find_key_distinct:
  "distinct (map key xs) \<Longrightarrow> x \<in> set xs \<Longrightarrow> find (\<lambda>y. key y = key x) xs = Some x"
  by (induction xs) (auto simp: image_iff)

lemma find_code_after_status_write:
  "find (\<lambda>x. c_inventory_code x = k) xs = Some c \<Longrightarrow> distinct (map c_id xs) \<Longrightarrow>
   find (\<lambda>x. c_inventory_code x = k)
     (map (\<lambda>x. if c_id x = c_id c then c\<lparr>c_status := st\<rparr> else x) xs) = Some (c\<lparr>c_status := st\<rparr>)"
proof (induction xs)
  case Nil
  then show ?case by simp
next
  case (Cons x xs)
  show ?case
  proof (cases "c_inventory_code x = k")
    case True
    with Cons.prems show ?thesis by simp
  next
    case False
    with Cons.prems have tl: "find (\<lambda>x. c_inventory_code x = k) xs = Some c" by simp
    then have "c \<in> set xs" using find_Some_key[of c_inventory_code k xs c] by simp
    with Cons.prems have "c_id x \<noteq> c_id c" by (auto simp: image_iff)
    with False tl Cons show ?thesis by simp
  qed
qed

text \<open>
  Claim C6. \<^verbatim>\<open>issue_loan\<close> returns a failure and the store unchanged when the
  stripped inventory code or reader login resolves to no row, or when the copy's status
  is not available. With codes that are not blank, an available copy, a reader found, a
  librarian who has a user row, a due date that is a date, unique copy ids and no open or
  overdue loan on the copy, the call succeeds. When it succeeds the copy was available,
  the caller has a user row, the loan appended is open, starts today, is due 14 days
  later and has no return date, every copy row with the id of the copy has status
  loaned, and a second call with the same inventory code and any reader login that is
  not blank fails with the not-available failure, leaving the store as it is (copy ids
  being unique).
\<close>

theorem issue_loan_spec:
  "(find (\<lambda>c. c_inventory_code c = strip code) (copies s) = None \<or>
    find (\<lambda>u. u_login u = strip login) (users s) = None \<or>
    (\<exists>c. find (\<lambda>c. c_inventory_code c = strip code) (copies s) = Some c \<and>
         c_status c \<noteq> ''available'')
    \<longrightarrow> (\<exists>e. issue_loan today code login librarian s = (s, Err e))) \<and>
   (\<forall>c u. strip code \<noteq> [] \<and> strip login \<noteq> [] \<and>
          find (\<lambda>c. c_inventory_code c = strip code) (copies s) = Some c \<and>
          c_status c = ''available'' \<and>
          find (\<lambda>u. u_login u = strip login) (users s) = Some u \<and>
          user_exists s librarian \<and> date_ok (today + 14) \<and>
          distinct (map c_id (copies s)) \<and>
          \<not> (\<exists>l \<in> set (loans s). l_copy l = c_id c \<and> l_status l \<in> set [''open'', ''overdue''])
      \<longrightarrow> (\<exists>s'. issue_loan today code login librarian s = (s', Ok (next_loan_id s)))) \<and>
   (\<forall>s' lid. issue_loan today code login librarian s = (s', Ok lid) \<longrightarrow>
      (\<exists>c u. find (\<lambda>c. c_inventory_code c = strip code) (copies s) = Some c \<and>
             c_status c = ''available'' \<and>
             find (\<lambda>u. u_login u = strip login) (users s) = Some u \<and>
             user_exists s librarian \<and> date_ok (today + 14) \<and>
             lid = next_loan_id s \<and>
             loans s' = loans s @
               [\<lparr>l_id = lid, l_status = ''open'', l_start_date = today,
                 l_due_date = today + 14, l_return_date = None, l_copy = c_id c,
                 l_reader = u_id u, l_librarian = librarian\<rparr>] \<and>
             map c_id (copies s') = map c_id (copies s) \<and>
             (\<forall>x \<in> set (copies s'). c_id x = c_id c \<longrightarrow> c_status x = ''loaned'') \<and>
             (\<forall>x \<in> set (copies s'). c_id x \<noteq> c_id c \<longrightarrow> x \<in> set (copies s)) \<and>
             reservations s' = reservations s \<and>
             (distinct (map c_id (copies s)) \<longrightarrow>
                (\<forall>today' login' librarian'. strip login' \<noteq> [] \<longrightarrow>
                   issue_loan today' code login' librarian' s' = (s', Err CopyNotAvailable)))))"
proof (intro conjI impI allI)
  assume "find (\<lambda>c. c_inventory_code c = strip code) (copies s) = None \<or>
    find (\<lambda>u. u_login u = strip login) (users s) = None \<or>
    (\<exists>c. find (\<lambda>c. c_inventory_code c = strip code) (copies s) = Some c \<and>
         c_status c \<noteq> ''available'')"
  then show "\<exists>e. issue_loan today code login librarian s = (s, Err e)"
    by (auto simp: issue_loan_def Let_def split: option.splits)
next
  fix c u
  assume a: "strip code \<noteq> [] \<and> strip login \<noteq> [] \<and>
          find (\<lambda>c. c_inventory_code c = strip code) (copies s) = Some c \<and>
          c_status c = ''available'' \<and>
          find (\<lambda>u. u_login u = strip login) (users s) = Some u \<and>
          user_exists s librarian \<and> date_ok (today + 14) \<and>
          distinct (map c_id (copies s)) \<and>
          \<not> (\<exists>l \<in> set (loans s). l_copy l = c_id c \<and> l_status l \<in> set [''open'', ''overdue''])"
  then have "c \<in> set (copies s)"
    using find_Some_key[of c_inventory_code "strip code" "copies s" c] by simp
  with a have fc: "find (\<lambda>x. c_id x = c_id c) (copies s) = Some c"
    by (simp add: find_key_distinct)
  from a have "find (\<lambda>u. u_login u = strip login) (users s) = Some u" by simp
  then have ue: "user_exists s (u_id u)" by (rule find_user_exists)
  from a have dp: "date_plus_days today DEFAULT_LOAN_DAYS = Some (today + 14)"
    by (simp add: date_plus_days_def DEFAULT_LOAN_DAYS_def)
  from a fc ue dp show "\<exists>s'. issue_loan today code login librarian s = (s', Ok (next_loan_id s))"
    by (simp add: issue_loan_def Let_def loan_create_def ACTIVE_LOAN_STATUSES_def)
next
  fix s' lid
  assume ok: "issue_loan today code login librarian s = (s', Ok lid)"
  let ?code = "strip code"
  from ok have ne: "?code \<noteq> []" "strip login \<noteq> []"
    by (auto simp: issue_loan_def Let_def split: if_splits)
  from ok ne obtain c where c: "find (\<lambda>c. c_inventory_code c = ?code) (copies s) = Some c"
    by (auto simp: issue_loan_def Let_def split: option.splits if_splits)
  from ok ne c have av: "c_status c = ''available''"
    by (auto simp: issue_loan_def Let_def split: option.splits if_splits)
  from ok ne c av obtain u where u: "find (\<lambda>u. u_login u = strip login) (users s) = Some u"
    by (auto simp: issue_loan_def Let_def split: option.splits if_splits)
  from ok ne c av u obtain due where due: "date_plus_days today DEFAULT_LOAN_DAYS = Some due"
    by (auto simp: issue_loan_def Let_def split: option.splits if_splits)
  from date_plus_days_Some[OF due] have due_eq: "due = today + 14" "date_ok (today + 14)"
    by (simp_all add: DEFAULT_LOAN_DAYS_def)
  from ok ne c av u due obtain c1 where c1: "find (\<lambda>x. c_id x = c_id c) (copies s) = Some c1"
    by (auto simp: issue_loan_def Let_def split: option.splits if_splits)
  from find_Some_key[OF c1] have c1id: "c_id c1 = c_id c" by simp
  let ?row = "\<lparr>l_id = 0, l_status = ''open'', l_start_date = today,
                 l_due_date = due, l_return_date = None, l_copy = c_id c1,
                 l_reader = u_id u, l_librarian = librarian\<rparr>"
  from ok ne c av u due c1 obtain s1 where
    s1: "loan_create ?row s = (s1, Some lid)" and
    s': "s' = save_copy (c1\<lparr>c_status := ''loaned''\<rparr>) s1"
    by (auto simp: issue_loan_def Let_def split: option.splits if_splits prod.splits)
  note lc = loan_create_Some[OF s1]
  from lc have lib: "user_exists s librarian" by simp
  have loans': "loans s' = loans s @
               [\<lparr>l_id = lid, l_status = ''open'', l_start_date = today,
                 l_due_date = today + 14, l_return_date = None, l_copy = c_id c,
                 l_reader = u_id u, l_librarian = librarian\<rparr>]"
    using lc s' c1id due_eq by (simp add: save_copy_def)
  have copies': "copies s' = map (\<lambda>x. if c_id x = c_id c then c1\<lparr>c_status := ''loaned''\<rparr> else x)
                               (copies s)"
    using lc s' c1id by (simp add: save_copy_def)
  have ids: "map c_id (copies s') = map c_id (copies s)"
    unfolding copies' using c1id by (simp add: comp_def cong: map_cong)
  have loaned: "\<forall>x \<in> set (copies s'). c_id x = c_id c \<longrightarrow> c_status x = ''loaned''"
    unfolding copies' by auto
  have others: "\<forall>x \<in> set (copies s'). c_id x \<noteq> c_id c \<longrightarrow> x \<in> set (copies s)"
    unfolding copies' using c1id by auto
  have res': "reservations s' = reservations s"
    using lc s' by (simp add: save_copy_def)
  have cin: "c \<in> set (copies s)" "c_inventory_code c = ?code"
    using find_Some_key[OF c] by auto
  have again: "issue_loan today' code login' librarian' s' = (s', Err CopyNotAvailable)"
    if d: "distinct (map c_id (copies s))" and l: "strip login' \<noteq> []"
    for today' login' librarian'
  proof -
    from find_key_distinct[OF d cin(1)] c1 have eq: "c1 = c" by simp
    have "find (\<lambda>c. c_inventory_code c = ?code) (copies s') = Some (c\<lparr>c_status := ''loaned''\<rparr>)"
      unfolding copies' eq by (rule find_code_after_status_write[OF c d])
    with ne l show ?thesis by (simp add: issue_loan_def Let_def)
  qed
  show "\<exists>c u. find (\<lambda>c. c_inventory_code c = strip code) (copies s) = Some c \<and>
             c_status c = ''available'' \<and>
             find (\<lambda>u. u_login u = strip login) (users s) = Some u \<and>
             user_exists s librarian \<and> date_ok (today + 14) \<and>
             lid = next_loan_id s \<and>
             loans s' = loans s @
               [\<lparr>l_id = lid, l_status = ''open'', l_start_date = today,
                 l_due_date = today + 14, l_return_date = None, l_copy = c_id c,
                 l_reader = u_id u, l_librarian = librarian\<rparr>] \<and>
             map c_id (copies s') = map c_id (copies s) \<and>
             (\<forall>x \<in> set (copies s'). c_id x = c_id c \<longrightarrow> c_status x = ''loaned'') \<and>
             (\<forall>x \<in> set (copies s'). c_id x \<noteq> c_id c \<longrightarrow> x \<in> set (copies s)) \<and>
             reservations s' = reservations s \<and>
             (distinct (map c_id (copies s)) \<longrightarrow>
                (\<forall>today' login' librarian'. strip login' \<noteq> [] \<longrightarrow>
                   issue_loan today' code login' librarian' s' = (s', Err CopyNotAvailable)))"
    using c av u lib due_eq(2) lc loans' ids loaned others res' again by blast
qed

theorem issue_loan_spec_witness:
  "strip '' INV-0001 '' = ''INV-0001'' \<and>
   strip (CHR 0xA0 # ''INV-0001'' @ [CHR 0x85]) = ''INV-0001'' \<and>
   snd (issue_loan 20 '' INV-0001 '' ''kap213'' 2 demo_db) = Ok 2 \<and>
   map c_status (copies (fst (issue_loan 20 '' INV-0001 '' ''kap213'' 2 demo_db)))
     = [''loaned'', ''reserved'', ''loaned''] \<and>
   last (loans (fst (issue_loan 20 '' INV-0001 '' ''kap213'' 2 demo_db)))
     = \<lparr>l_id = 2, l_status = ''open'', l_start_date = 20, l_due_date = 34,
        l_return_date = None, l_copy = 1, l_reader = 1, l_librarian = 2\<rparr> \<and>
   snd (issue_loan 21 '' INV-0001 '' ''kap213'' 2
          (fst (issue_loan 20 '' INV-0001 '' ''kap213'' 2 demo_db))) = Err CopyNotAvailable \<and>
   issue_loan 20 ''INV-0002'' ''kap213'' 2 demo_db = (demo_db, Err CopyNotAvailable) \<and>
   issue_loan 20 ''INV-0009'' ''kap213'' 2 demo_db = (demo_db, Err CopyNotFound) \<and>
   issue_loan 20 ''INV-0001'' ''nobody'' 2 demo_db = (demo_db, Err ReaderNotFound) \<and>
   issue_loan 20 ''INV-0001'' ''kap213'' 99 demo_db
     = (demo_db\<lparr>next_loan_id := 3\<rparr>, Err DbError) \<and>
   issue_loan 3652050 ''INV-0001'' ''kap213'' 2 demo_db = (demo_db, Exc OverflowError)"
  using issue_loan_spec[where code = "'' INV-0001 ''" and login = "''kap213''" and today = 20
      and librarian = 2 and s = demo_db]
  by (simp add: demo_db_def issue_loan_def strip_def isspace_def Let_def loan_create_def
        ACTIVE_LOAN_STATUSES_def DEFAULT_LOAN_DAYS_def save_copy_def user_exists_def
        date_plus_days_def date_ok_def rollback_def)

section \<open>The sweep, row by row\<close>

lemma sweep_row_simps [simp]:
  "r_id (sweep_row now s r) = r_id r"
  "r_copy (sweep_row now s r) = r_copy r"
  "r_reader (sweep_row now s r) = r_reader r"
  "r_extended_once (sweep_row now s r) = r_extended_once r"
  "r_pickup_date (sweep_row now s r) = r_pickup_date r"
  "r_expires_at (sweep_row now s r) = r_expires_at r"
  by (simp_all add: sweep_row_def)

lemma sweep_row_active:
  "distinct (map r_id (reservations s)) \<Longrightarrow> r \<in> set (reservations s) \<Longrightarrow>
   r_status (sweep_row now s r) = ''active'' \<longleftrightarrow> r_status r = ''active'' \<and> \<not> r_expires_at r < now"
  unfolding sweep_row_def
  by (auto simp add: key_in_filtered_keys expirable_def simp del: set_map)

lemma sweep_row_active_same:
  "r_status (sweep_row now s r) = ''active'' \<Longrightarrow> sweep_row now s r = r"
  by (auto simp: sweep_row_def)

lemma sweep_reservations: 
  "reservations (fst (expire_old_reservations now s)) = map (sweep_row now s) (reservations s)"
  unfolding expire_reservations_eq sweep_row_def ..

lemma sweep_find:
  "find (\<lambda>r. r_id r = rid) (reservations (fst (expire_old_reservations now s))) =
     map_option (sweep_row now s) (find (\<lambda>r. r_id r = rid) (reservations s))"
  unfolding sweep_reservations by (rule find_map_same_key) simp

lemma extend_reservation_cases:
  assumes d: "distinct (map r_id (reservations s))"
  shows "extend_reservation now reader rid s =
     (let s1 = fst (expire_old_reservations now s) in
      case find (\<lambda>r. r_id r = rid) (reservations s) of
        None \<Rightarrow> (s1, Err ReservationNotFound)
      | Some res \<Rightarrow>
          if r_reader res \<noteq> reader then (s1, Err NotYourReservation)
          else if r_status res \<noteq> ''active'' \<or> r_expires_at res < now
            then (s1, Err ReservationNotActive)
          else if r_extended_once res then (s1, Err AlreadyExtended)
          else (case date_plus_days (r_pickup_date res) 1 of
                  None \<Rightarrow> (s1, Exc OverflowError)
                | Some new_pick \<Rightarrow>
                    (save_reservation
                       (res\<lparr>r_pickup_date := new_pick, r_expires_at := end_of_day new_pick,
                            r_extended_once := True\<rparr>) s1,
                     Ok new_pick)))"
proof (cases "find (\<lambda>r. r_id r = rid) (reservations s)")
  case None
  then show ?thesis by (simp add: extend_reservation_def sweep_find Let_def)
next
  case (Some res)
  then have "res \<in> set (reservations s)" using find_Some_key[of r_id rid _ res] by simp
  note act = sweep_row_active[OF d this, of now]
  show ?thesis
  proof (cases "r_status (sweep_row now s res) = ''active''")
    case True
    with act sweep_row_active_same[OF True] Some show ?thesis
      by (simp add: extend_reservation_def sweep_find Let_def)
  next
    case False
    with act Some show ?thesis
      by (auto simp add: extend_reservation_def sweep_find Let_def)
  qed
qed

section \<open>The shape of the outcomes\<close>

lemma find_in_set: "find P xs = Some x \<Longrightarrow> x \<in> set xs \<and> P x"
  by (induction xs) (auto split: if_splits)

lemma reservation_create_Some:
  "reservation_create row s = (s1, Some k) \<Longrightarrow>
     k = next_reservation_id s \<and>
     s1 = s\<lparr>reservations := reservations s @ [row\<lparr>r_id := next_reservation_id s\<rparr>],
            next_reservation_id := Suc (next_reservation_id s)\<rparr> \<and>
     user_exists s (r_reader row)"
  by (auto simp: reservation_create_def Let_def split: if_splits)

lemma reservation_create_None:
  "reservation_create row s = (s1, None) \<Longrightarrow>
     s1 = s\<lparr>next_reservation_id := Suc (next_reservation_id s)\<rparr>"
  by (auto simp: reservation_create_def Let_def split: if_splits)

lemma rollback_save_copy:
  "rollback s ((save_copy c s)\<lparr>next_reservation_id := n\<rparr>) = s\<lparr>next_reservation_id := n\<rparr>"
  by (simp add: rollback_def save_copy_def)

lemma create_reservation_not_Ok:
  assumes "create_reservation today now reader book_id branch_id pickup s = (s', r)"
    and "\<forall>k. r \<noteq> Ok k"
  shows "s' = s \<or> s' = fst (expire_old_reservations now s) \<or>
         s' = (fst (expire_old_reservations now s))
                \<lparr>next_reservation_id :=
                   Suc (next_reservation_id (fst (expire_old_reservations now s)))\<rparr>"
  using assms
  by (auto simp: create_reservation_def Let_def rollback_def save_copy_def
      dest!: reservation_create_None split: option.splits if_splits prod.splits)

lemma create_reservation_Ok:
  "create_reservation today now reader book_id branch_id pickup s = (s', Ok k) \<Longrightarrow>
   \<exists>c. select_available_copy book_id branch_id (fst (expire_old_reservations now s)) = Some c \<and>
       reservation_create
         \<lparr>r_id = 0, r_status = ''active'', r_pickup_date = pickup,
          r_created_at = now, r_expires_at = end_of_day pickup,
          r_extended_once = False, r_reader = reader,
          r_copy = c_id c, r_branch = branch_id\<rparr>
         (save_copy (c\<lparr>c_status := ''reserved''\<rparr>) (fst (expire_old_reservations now s)))
       = (s', Some k)"
  by (auto simp: create_reservation_def Let_def split: option.splits if_splits prod.splits)

lemma cancel_reservation_not_Ok:
  "cancel_reservation now reader rid s = (s', r) \<Longrightarrow> r \<noteq> Ok () \<Longrightarrow>
   s' = fst (expire_old_reservations now s)"
  by (auto simp: cancel_reservation_def Let_def split: option.splits if_splits)

lemma cancel_reservation_Ok:
  "cancel_reservation now reader rid s = (s', Ok u) \<Longrightarrow>
   \<exists>res. find (\<lambda>r. r_id r = rid) (reservations (fst (expire_old_reservations now s))) = Some res \<and>
     r_reader res = reader \<and> r_status res = ''active'' \<and>
     s' = (save_reservation (res\<lparr>r_status := ''cancelled''\<rparr>)
             (fst (expire_old_reservations now s)))
          \<lparr>copies := map (\<lambda>c. if c_id c = r_copy res \<and> c_status c = ''reserved''
                              then c\<lparr>c_status := ''available''\<rparr> else c)
             (copies (fst (expire_old_reservations now s)))\<rparr>"
  by (auto simp: cancel_reservation_def Let_def save_reservation_def
      split: option.splits if_splits)

lemma extend_reservation_not_Ok:
  "extend_reservation now reader rid s = (s', r) \<Longrightarrow> (\<forall>d. r \<noteq> Ok d) \<Longrightarrow>
   s' = fst (expire_old_reservations now s)"
  by (auto simp: extend_reservation_def Let_def split: option.splits if_splits)

lemma extend_reservation_Ok:
  "extend_reservation now reader rid s = (s', Ok d) \<Longrightarrow>
   \<exists>res. find (\<lambda>r. r_id r = rid) (reservations (fst (expire_old_reservations now s))) = Some res \<and>
     r_reader res = reader \<and> r_status res = ''active'' \<and> \<not> r_extended_once res \<and>
     d = r_pickup_date res + 1 \<and> date_ok d \<and>
     s' = save_reservation
            (res\<lparr>r_pickup_date := r_pickup_date res + 1,
                 r_expires_at := end_of_day (r_pickup_date res + 1),
                 r_extended_once := True\<rparr>) (fst (expire_old_reservations now s))"
  by (auto simp: extend_reservation_def Let_def dest!: date_plus_days_Some
      split: option.splits if_splits)

lemma fulfill_reservation_not_Ok:
  assumes "fulfill_reservation today now librarian rid loan_days s = (s', r)"
    and "\<forall>d. r \<noteq> Ok d"
  shows "s' = fst (expire_old_reservations now s) \<or>
         s' = (fst (expire_old_reservations now s))
                \<lparr>next_loan_id := Suc (next_loan_id (fst (expire_old_reservations now s)))\<rparr>"
  using assms
  by (auto simp: fulfill_reservation_def Let_def dest!: loan_create_None
      split: option.splits if_splits prod.splits)

lemma fulfill_reservation_Ok:
  "fulfill_reservation today now librarian rid loan_days s = (s', Ok due) \<Longrightarrow>
   \<exists>res c0 u s2 lid.
     find (\<lambda>r. r_id r = rid) (reservations (fst (expire_old_reservations now s))) = Some res \<and>
     find (\<lambda>c. c_id c = r_copy res) (copies (fst (expire_old_reservations now s))) = Some c0 \<and>
     r_status res = ''active'' \<and> c_status c0 = ''reserved'' \<and>
     \<not> (\<exists>l \<in> set (loans s). l_copy l = c_id c0 \<and> l_status l \<in> set ACTIVE_LOAN_STATUSES) \<and>
     find (\<lambda>u. u_id u = r_reader res) (users s) = Some u \<and>
     due = today + loan_days \<and> date_ok due \<and> user_exists s librarian \<and>
     loan_create
       \<lparr>l_id = 0, l_status = ''open'', l_start_date = today,
        l_due_date = today + loan_days, l_return_date = None,
        l_copy = c_id c0, l_reader = u_id u, l_librarian = librarian\<rparr>
       (fst (expire_old_reservations now s)) = (s2, Some lid) \<and>
     s' = save_copy (c0\<lparr>c_status := ''loaned''\<rparr>)
            (save_reservation (res\<lparr>r_status := ''fulfilled''\<rparr>) s2)"
proof -
  assume ok: "fulfill_reservation today now librarian rid loan_days s = (s', Ok due)"
  let ?s1 = "fst (expire_old_reservations now s)"
  from ok obtain res where res: "find (\<lambda>r. r_id r = rid) (reservations ?s1) = Some res"
    by (auto simp: fulfill_reservation_def Let_def split: option.splits)
  from ok res obtain c0 where c0: "find (\<lambda>c. c_id c = r_copy res) (copies ?s1) = Some c0"
    by (auto simp: fulfill_reservation_def Let_def split: option.splits)
  from ok res c0 have chk: "r_status res = ''active''" "c_status c0 = ''reserved''"
    "\<not> (\<exists>l \<in> set (loans s). l_copy l = c_id c0 \<and> l_status l \<in> set ACTIVE_LOAN_STATUSES)"
    by (auto simp: fulfill_reservation_def Let_def expire_other_fields split: if_splits)
  from ok res c0 chk obtain d where d: "date_plus_days today loan_days = Some d"
    by (auto simp: fulfill_reservation_def Let_def expire_other_fields split: option.splits)
  from ok res c0 chk d obtain u where u: "find (\<lambda>u. u_id u = r_reader res) (users s) = Some u"
    by (auto simp: fulfill_reservation_def Let_def expire_other_fields split: option.splits)
  from ok res c0 chk d u obtain s2 lid where
    lc: "loan_create
       \<lparr>l_id = 0, l_status = ''open'', l_start_date = today,
        l_due_date = d, l_return_date = None,
        l_copy = c_id c0, l_reader = u_id u, l_librarian = librarian\<rparr> ?s1 = (s2, Some lid)"
    and s': "s' = save_copy (c0\<lparr>c_status := ''loaned''\<rparr>)
            (save_reservation (res\<lparr>r_status := ''fulfilled''\<rparr>) s2)"
    and due: "due = d"
    by (auto simp: fulfill_reservation_def Let_def expire_other_fields
        split: option.splits prod.splits)
  from loan_create_Some[OF lc] have "user_exists ?s1 librarian" by simp
  then have lib: "user_exists s librarian" by (simp add: user_exists_def expire_other_fields)
  from date_plus_days_Some[OF d] have dd: "d = today + loan_days" "date_ok d" by simp_all
  from res c0 chk u lc s' due dd lib show ?thesis by auto
qed

lemma issue_loan_not_Ok:
  assumes "issue_loan today code login librarian s = (s', r)" and "\<forall>k. r \<noteq> Ok k"
  shows "s' = s \<or> s' = s\<lparr>next_loan_id := Suc (next_loan_id s)\<rparr>"
  using assms
  by (auto simp: issue_loan_def Let_def dest!: loan_create_None
      split: option.splits if_splits prod.splits)

lemma issue_loan_Ok:
  "issue_loan today code login librarian s = (s', Ok lid) \<Longrightarrow>
   \<exists>c0 c1 u s1.
     find (\<lambda>c. c_inventory_code c = strip code) (copies s) = Some c0 \<and>
     c_status c0 = ''available'' \<and>
     find (\<lambda>u. u_login u = strip login) (users s) = Some u \<and>
     find (\<lambda>c. c_id c = c_id c0) (copies s) = Some c1 \<and>
     c_status c1 = ''available'' \<and>
     loan_create
       \<lparr>l_id = 0, l_status = ''open'', l_start_date = today,
        l_due_date = today + DEFAULT_LOAN_DAYS, l_return_date = None,
        l_copy = c_id c1, l_reader = u_id u, l_librarian = librarian\<rparr> s = (s1, Some lid) \<and>
     s' = save_copy (c1\<lparr>c_status := ''loaned''\<rparr>) s1"
  by (auto simp: issue_loan_def Let_def dest!: date_plus_days_Some
      split: option.splits if_splits prod.splits)

lemma return_loan_not_Ok:
  "return_loan today loan_id librarian s = (s', r) \<Longrightarrow> r \<noteq> Ok () \<Longrightarrow> s' = s"
  by (auto simp: return_loan_def Let_def split: option.splits if_splits)

lemma return_loan_Ok:
  "return_loan today loan_id librarian s = (s', Ok u) \<Longrightarrow>
   \<exists>loan c0.
     user_exists s librarian \<and>
     find (\<lambda>l. l_id l = loan_id) (loans s) = Some loan \<and>
     l_status loan \<in> set [''open'', ''overdue''] \<and>
     find (\<lambda>c. c_id c = l_copy loan) (copies s) = Some c0 \<and>
     s' = save_copy (c0\<lparr>c_status := ''available''\<rparr>)
            (save_loan (loan\<lparr>l_status := ''returned'', l_return_date := Some today,
                            l_librarian := librarian\<rparr>) s)"
  by (auto simp: return_loan_def Let_def save_loan_def split: option.splits if_splits)

section \<open>Reservation engine: extension\<close>

lemma efg_sweep: "extended_for_good rid s \<Longrightarrow> extended_for_good rid (fst (expire_old_reservations now s))"
  by (auto simp: extended_for_good_def sweep_reservations expire_other_fields)

lemma efg_save_reservation:
  "extended_for_good rid s \<Longrightarrow> (r_id r = rid \<longrightarrow> r_extended_once r) \<Longrightarrow>
   extended_for_good rid (save_reservation r s)"
  by (auto simp: extended_for_good_def save_reservation_def)

lemma efg_same_reservations:
  "extended_for_good rid s \<Longrightarrow> reservations s' = reservations s \<Longrightarrow>
   next_reservation_id s \<le> next_reservation_id s' \<Longrightarrow> extended_for_good rid s'"
  by (simp add: extended_for_good_def)

lemma efg_reservation_create:
  "extended_for_good rid s \<Longrightarrow> reservation_create row s = (s', Some k) \<Longrightarrow>
   extended_for_good rid s'"
  by (auto simp: extended_for_good_def reservation_create_def Let_def split: if_splits)

lemma efg_sweep_update:
  "extended_for_good rid s \<Longrightarrow> extended_for_good rid (sweep_update sel s)"
  by (auto simp: extended_for_good_def sweep_update_def)

lemma efg_create:
  assumes q: "extended_for_good rid s"
  shows "extended_for_good rid (fst (create_reservation today now reader book_id branch_id pickup s))"
proof -
  note q1 = efg_sweep[OF q, of now]
  obtain s' r where eq: "create_reservation today now reader book_id branch_id pickup s = (s', r)"
    by (cases "create_reservation today now reader book_id branch_id pickup s")
  have "extended_for_good rid s'"
  proof (cases "\<exists>k. r = Ok k")
    case True
    then obtain k where "r = Ok k" ..
    from create_reservation_Ok[OF eq[unfolded this]] obtain c row where
      rc: "reservation_create row
             (save_copy (c\<lparr>c_status := ''reserved''\<rparr>) (fst (expire_old_reservations now s)))
           = (s', Some k)"
      by blast
    have "extended_for_good rid
            (save_copy (c\<lparr>c_status := ''reserved''\<rparr>) (fst (expire_old_reservations now s)))"
      using q1 by (rule efg_same_reservations) (simp_all add: save_copy_def)
    then show ?thesis using rc by (rule efg_reservation_create)
  next
    case False
    with create_reservation_not_Ok[OF eq] have
      "s' = s \<or> s' = fst (expire_old_reservations now s) \<or>
       s' = (fst (expire_old_reservations now s))
                \<lparr>next_reservation_id :=
                   Suc (next_reservation_id (fst (expire_old_reservations now s)))\<rparr>"
      by simp
    then show ?thesis using q q1 by (auto intro: efg_same_reservations)
  qed
  with eq show ?thesis by simp
qed

lemma efg_cancel:
  assumes q: "extended_for_good rid s"
  shows "extended_for_good rid (fst (cancel_reservation now reader rid' s))"
proof -
  note q1 = efg_sweep[OF q, of now]
  obtain s' r where eq: "cancel_reservation now reader rid' s = (s', r)"
    by (cases "cancel_reservation now reader rid' s")
  have "extended_for_good rid s'"
  proof (cases "r = Ok ()")
    case True
    from cancel_reservation_Ok[OF eq[unfolded True]] obtain res where
      f: "find (\<lambda>r. r_id r = rid') (reservations (fst (expire_old_reservations now s))) = Some res"
      and s': "s' = (save_reservation (res\<lparr>r_status := ''cancelled''\<rparr>)
                     (fst (expire_old_reservations now s)))
                \<lparr>copies := map (\<lambda>c. if c_id c = r_copy res \<and> c_status c = ''reserved''
                                    then c\<lparr>c_status := ''available''\<rparr> else c)
                   (copies (fst (expire_old_reservations now s)))\<rparr>"
      by blast
    from find_in_set[OF f] q1 have "r_id res = rid \<longrightarrow> r_extended_once res"
      by (auto simp: extended_for_good_def)
    then have "extended_for_good rid (save_reservation (res\<lparr>r_status := ''cancelled''\<rparr>)
                     (fst (expire_old_reservations now s)))"
      using q1 by (intro efg_save_reservation) simp_all
    then show ?thesis unfolding s' by (rule efg_same_reservations) simp_all
  next
    case False
    with cancel_reservation_not_Ok[OF eq] q1 show ?thesis by simp
  qed
  with eq show ?thesis by simp
qed

lemma efg_extend:
  assumes q: "extended_for_good rid s"
  shows "extended_for_good rid (fst (extend_reservation now reader rid' s))"
proof -
  note q1 = efg_sweep[OF q, of now]
  obtain s' r where eq: "extend_reservation now reader rid' s = (s', r)"
    by (cases "extend_reservation now reader rid' s")
  have "extended_for_good rid s'"
  proof (cases "\<exists>d. r = Ok d")
    case True
    then obtain d where "r = Ok d" ..
    from extend_reservation_Ok[OF eq[unfolded this]] obtain res where
      s': "s' = save_reservation
               (res\<lparr>r_pickup_date := r_pickup_date res + 1,
                    r_expires_at := end_of_day (r_pickup_date res + 1),
                    r_extended_once := True\<rparr>) (fst (expire_old_reservations now s))"
      by blast
    show ?thesis unfolding s' using q1 by (intro efg_save_reservation) simp_all
  next
    case False
    with extend_reservation_not_Ok[OF eq] q1 show ?thesis by simp
  qed
  with eq show ?thesis by simp
qed

lemma efg_fulfill:
  assumes q: "extended_for_good rid s"
  shows "extended_for_good rid (fst (fulfill_reservation today now librarian rid' loan_days s))"
proof -
  note q1 = efg_sweep[OF q, of now]
  obtain s' r where eq: "fulfill_reservation today now librarian rid' loan_days s = (s', r)"
    by (cases "fulfill_reservation today now librarian rid' loan_days s")
  have "extended_for_good rid s'"
  proof (cases "\<exists>d. r = Ok d")
    case True
    then obtain d where "r = Ok d" ..
    from fulfill_reservation_Ok[OF eq[unfolded this]] obtain res c0 row s2 lid where
      f: "find (\<lambda>r. r_id r = rid') (reservations (fst (expire_old_reservations now s))) = Some res"
      and lc: "loan_create row (fst (expire_old_reservations now s)) = (s2, Some lid)"
      and s': "s' = save_copy (c0\<lparr>c_status := ''loaned''\<rparr>)
                      (save_reservation (res\<lparr>r_status := ''fulfilled''\<rparr>) s2)"
      by blast
    from find_in_set[OF f] q1 have fl: "r_id res = rid \<longrightarrow> r_extended_once res"
      by (auto simp: extended_for_good_def)
    from loan_create_Some[OF lc] q1 have "extended_for_good rid s2"
      by (auto intro: efg_same_reservations)
    with fl have "extended_for_good rid (save_reservation (res\<lparr>r_status := ''fulfilled''\<rparr>) s2)"
      by (intro efg_save_reservation) simp_all
    then show ?thesis unfolding s' by (rule efg_same_reservations) (simp_all add: save_copy_def)
  next
    case False
    with fulfill_reservation_not_Ok[OF eq] have
      "s' = fst (expire_old_reservations now s) \<or>
       s' = (fst (expire_old_reservations now s))
                \<lparr>next_loan_id := Suc (next_loan_id (fst (expire_old_reservations now s)))\<rparr>"
      by simp
    then show ?thesis using q1 by (auto intro: efg_same_reservations)
  qed
  with eq show ?thesis by simp
qed

lemma efg_issue:
  assumes q: "extended_for_good rid s"
  shows "extended_for_good rid (fst (issue_loan today code login librarian s))"
proof -
  have "reservations (fst (issue_loan today code login librarian s)) = reservations s \<and>
        next_reservation_id (fst (issue_loan today code login librarian s)) = next_reservation_id s"
    by (auto simp: issue_loan_def Let_def save_copy_def rollback_def
        dest!: loan_create_Some loan_create_None split: option.splits if_splits prod.splits)
  with q show ?thesis by (auto intro: efg_same_reservations)
qed

lemma efg_return:
  assumes q: "extended_for_good rid s"
  shows "extended_for_good rid (fst (return_loan today loan_id librarian s))"
proof -
  have "reservations (fst (return_loan today loan_id librarian s)) = reservations s \<and>
        next_reservation_id (fst (return_loan today loan_id librarian s)) = next_reservation_id s"
    by (auto simp: return_loan_def Let_def save_copy_def save_loan_def
        split: option.splits if_splits)
  with q show ?thesis by (auto intro: efg_same_reservations)
qed

lemma efg_overdue:
  "extended_for_good rid s \<Longrightarrow> extended_for_good rid (fst (update_overdue_statuses today s))"
  by (auto simp: update_overdue_statuses_def intro: efg_same_reservations)

lemma efg_extend_fails:
  assumes "extended_for_good rid s"
  shows "\<exists>e. snd (extend_reservation now reader rid s) = Err e"
proof (cases "find (\<lambda>r. r_id r = rid) (reservations (fst (expire_old_reservations now s)))")
  case None
  then show ?thesis by (simp add: extend_reservation_def Let_def)
next
  case (Some res)
  from find_in_set[OF Some] efg_sweep[OF assms, of now] have "r_extended_once res"
    by (auto simp: extended_for_good_def)
  with Some show ?thesis by (simp add: extend_reservation_def Let_def)
qed

lemma find_map_replace:
  assumes "find (\<lambda>x. key x = k) xs = Some y" and "key y' = k"
  shows "find (\<lambda>x. key x = k) (map (\<lambda>x. if key x = k then y' else x) xs) = Some y'"
proof -
  have "find (\<lambda>x. key x = k) (map (\<lambda>x. if key x = k then y' else x) xs) =
        map_option (\<lambda>x. if key x = k then y' else x) (find (\<lambda>x. key x = k) xs)"
    by (rule find_map_same_key) (simp add: assms(2))
  with assms find_Some_key[OF assms(1)] show ?thesis by simp
qed

lemma filter_map_unchanged:
  assumes "\<And>x. x \<in> set xs \<Longrightarrow> P x \<Longrightarrow> f x = x"
    and "\<And>x. x \<in> set xs \<Longrightarrow> P (f x) = P x"
  shows "filter P (map f xs) = filter P xs"
  using assms by (induction xs) auto

lemma sweep_keeps_copy:
  assumes u: "\<forall>r \<in> set (reservations s). r_copy r = k \<and> r_status r = ''active'' \<longrightarrow> r = res"
    and n: "\<not> r_expires_at res < now"
  shows "filter (\<lambda>c. c_id c = k) (copies (fst (expire_old_reservations now s))) =
         filter (\<lambda>c. c_id c = k) (copies s)"
  unfolding expire_copies_eq
proof (rule filter_map_unchanged)
  fix c assume "c \<in> set (copies s)" "c_id c = k"
  moreover have "\<not> (\<exists>r \<in> set (reservations s). expirable now r \<and> r_copy r = k)"
    using u n by (auto simp: expirable_def)
  ultimately show "(if c_status c = ''reserved'' \<and>
                       (\<exists>r \<in> set (reservations s). expirable now r \<and> r_copy r = c_id c)
                    then c\<lparr>c_status := ''available''\<rparr> else c) = c"
    by simp
next
  fix c assume "c \<in> set (copies s)"
  show "(c_id (if c_status c = ''reserved'' \<and>
                       (\<exists>r \<in> set (reservations s). expirable now r \<and> r_copy r = c_id c)
                    then c\<lparr>c_status := ''available''\<rparr> else c) = k) = (c_id c = k)"
    by simp
qed

text \<open>
  Claim C7. \<^verbatim>\<open>extend_reservation\<close> fails, leaving the store as the sweep leaves
  it, unless the reservation exists and, after the sweep, is active, belongs to the
  caller and is not yet extended. With the reservation ids unique and below their
  sequence, a reservation that is active, not past its expiry at \<open>now\<close>, owned by the
  caller and not yet extended, whose pickup date has a next day, is extended: the
  pickup date grows by one day, the expiry becomes 23:59:59 of the new pickup day, the
  flag is set, no other reservation, no loan and no copy is written, and the copy of
  the reservation keeps its status when no other active reservation refers to it.
  A second call by the same reader then fails: with the already-extended failure as
  long as the new expiry has not passed, and with the not-active failure once it has;
  a call by another reader fails with the not-yours failure. The flag stays: the
  extended reservation satisfies \<open>extended_for_good\<close>, that property is kept by the
  sweep, by its UPDATE half run with any selection, and by each of the other engine
  operations run to completion, and in every store that has it every call fails, for
  every reader and every clock. So in a run of engine operations a reservation is
  extended at most once.
\<close>

theorem extend_reservation_once:
  assumes k: "reservation_keys_ok s"
  shows
  "(\<not> (\<exists>res. find (\<lambda>r. r_id r = rid) (reservations (fst (expire_old_reservations now s)))
               = Some res \<and>
            r_status res = ''active'' \<and> r_reader res = reader \<and> \<not> r_extended_once res)
      \<longrightarrow> (\<exists>e. extend_reservation now reader rid s = (fst (expire_old_reservations now s), Err e))) \<and>
   (\<forall>res. find (\<lambda>r. r_id r = rid) (reservations s) = Some res \<and> r_status res = ''active'' \<and>
          \<not> r_expires_at res < now \<and> r_reader res = reader \<and> \<not> r_extended_once res \<and>
          date_ok (r_pickup_date res + 1)
      \<longrightarrow> (\<exists>s'. extend_reservation now reader rid s = (s', Ok (r_pickup_date res + 1)) \<and>
             find (\<lambda>r. r_id r = rid) (reservations s') =
               Some (res\<lparr>r_pickup_date := r_pickup_date res + 1,
                         r_expires_at := datetime_combine (r_pickup_date res + 1) 23 59 59,
                         r_extended_once := True\<rparr>) \<and>
             (\<forall>r \<in> set (reservations s'). r_id r \<noteq> rid \<longrightarrow>
                 r \<in> set (reservations (fst (expire_old_reservations now s)))) \<and>
             copies s' = copies (fst (expire_old_reservations now s)) \<and>
             loans s' = loans s \<and>
             ((\<forall>r \<in> set (reservations s). r_copy r = r_copy res \<and> r_status r = ''active'' \<longrightarrow> r = res)
                \<longrightarrow> filter (\<lambda>c. c_id c = r_copy res) (copies s') =
                    filter (\<lambda>c. c_id c = r_copy res) (copies s)) \<and>
             (\<forall>now'. \<not> datetime_combine (r_pickup_date res + 1) 23 59 59 < now' \<longrightarrow>
                 snd (extend_reservation now' reader rid s') = Err AlreadyExtended) \<and>
             (\<forall>now'. datetime_combine (r_pickup_date res + 1) 23 59 59 < now' \<longrightarrow>
                 snd (extend_reservation now' reader rid s') = Err ReservationNotActive) \<and>
             (\<forall>now' reader'. reader' \<noteq> reader \<longrightarrow>
                 snd (extend_reservation now' reader' rid s') = Err NotYourReservation) \<and>
             extended_for_good rid s')) \<and>
   (\<forall>t. extended_for_good rid t \<longrightarrow>
      (\<forall>now' reader'. \<exists>e. snd (extend_reservation now' reader' rid t) = Err e) \<and>
      (\<forall>sel. extended_for_good rid (sweep_update sel t)) \<and>
      (\<forall>now'. extended_for_good rid (fst (expire_old_reservations now' t))) \<and>
      (\<forall>today' now' reader' book_id branch_id pickup.
          extended_for_good rid
            (fst (create_reservation today' now' reader' book_id branch_id pickup t))) \<and>
      (\<forall>now' reader' rid'. extended_for_good rid (fst (cancel_reservation now' reader' rid' t))) \<and>
      (\<forall>now' reader' rid'. extended_for_good rid (fst (extend_reservation now' reader' rid' t))) \<and>
      (\<forall>today' now' librarian rid' loan_days.
          extended_for_good rid
            (fst (fulfill_reservation today' now' librarian rid' loan_days t))) \<and>
      (\<forall>today' code login librarian.
          extended_for_good rid (fst (issue_loan today' code login librarian t))) \<and>
      (\<forall>today' loan_id librarian.
          extended_for_good rid (fst (return_loan today' loan_id librarian t))) \<and>
      (\<forall>today'. extended_for_good rid (fst (update_overdue_statuses today' t))))"
proof (intro conjI impI allI)
  assume "\<not> (\<exists>res. find (\<lambda>r. r_id r = rid) (reservations (fst (expire_old_reservations now s)))
               = Some res \<and>
            r_status res = ''active'' \<and> r_reader res = reader \<and> \<not> r_extended_once res)"
  then show "\<exists>e. extend_reservation now reader rid s = (fst (expire_old_reservations now s), Err e)"
    by (auto simp: extend_reservation_def Let_def split: option.splits)
next
  fix res
  assume a: "find (\<lambda>r. r_id r = rid) (reservations s) = Some res \<and> r_status res = ''active'' \<and>
          \<not> r_expires_at res < now \<and> r_reader res = reader \<and> \<not> r_extended_once res \<and>
          date_ok (r_pickup_date res + 1)"
  from k have d: "distinct (map r_id (reservations s))" by (simp add: reservation_keys_ok_def)
  let ?s1 = "fst (expire_old_reservations now s)"
  let ?exp = "datetime_combine (r_pickup_date res + 1) 23 59 59"
  let ?res' = "res\<lparr>r_pickup_date := r_pickup_date res + 1,
                    r_expires_at := ?exp,
                    r_extended_once := True\<rparr>"
  let ?s' = "save_reservation ?res' ?s1"
  from a find_Some_key[of r_id rid "reservations s" res]
  have rin: "res \<in> set (reservations s)" and rid: "r_id res = rid" by auto
  from a have dp: "date_plus_days (r_pickup_date res) 1 = Some (r_pickup_date res + 1)"
    by (simp add: date_plus_days_def)
  have run: "extend_reservation now reader rid s = (?s', Ok (r_pickup_date res + 1))"
    unfolding extend_reservation_cases[OF d] using a dp by (simp add: Let_def end_of_day_def)
  have f1: "find (\<lambda>r. r_id r = rid) (reservations ?s1) = Some res"
    using a sweep_row_active[OF d rin, of now] sweep_row_active_same[of now s res]
    by (simp add: sweep_find)
  have rs': "reservations ?s' = map (\<lambda>x. if r_id x = rid then ?res' else x) (reservations ?s1)"
    using rid by (simp add: save_reservation_def)
  have f': "find (\<lambda>r. r_id r = rid) (reservations ?s') = Some ?res'"
    unfolding rs' by (rule find_map_replace[OF f1]) (simp add: rid)
  have others: "\<forall>r \<in> set (reservations ?s'). r_id r \<noteq> rid \<longrightarrow> r \<in> set (reservations ?s1)"
    unfolding rs' using rid by auto
  have cps: "copies ?s' = copies ?s1" and lns: "loans ?s' = loans s"
    by (simp_all add: save_reservation_def expire_other_fields)
  have keep: "filter (\<lambda>c. c_id c = r_copy res) (copies ?s') =
              filter (\<lambda>c. c_id c = r_copy res) (copies s)"
    if "\<forall>r \<in> set (reservations s). r_copy r = r_copy res \<and> r_status r = ''active'' \<longrightarrow> r = res"
    unfolding cps using that a by (intro sweep_keeps_copy) auto
  have d': "distinct (map r_id (reservations ?s'))"
    unfolding rs' sweep_reservations using d rid
    by (simp add: comp_def if_distrib[of r_id] cong: if_cong map_cong)
  have again: "snd (extend_reservation now' reader rid ?s') = Err AlreadyExtended"
    if "\<not> ?exp < now'" for now'
    unfolding extend_reservation_cases[OF d'] using f' a that by (simp add: Let_def)
  have late: "snd (extend_reservation now' reader rid ?s') = Err ReservationNotActive"
    if "?exp < now'" for now'
    unfolding extend_reservation_cases[OF d'] using f' a that by (simp add: Let_def)
  have other: "snd (extend_reservation now' reader' rid ?s') = Err NotYourReservation"
    if "reader' \<noteq> reader" for now' reader'
    unfolding extend_reservation_cases[OF d'] using f' a that by (auto simp add: Let_def)
  have efg: "extended_for_good rid ?s'"
    using k rin rid unfolding extended_for_good_def rs'
    by (auto simp: reservation_keys_ok_def save_reservation_def expire_other_fields)
  show "\<exists>s'. extend_reservation now reader rid s = (s', Ok (r_pickup_date res + 1)) \<and>
             find (\<lambda>r. r_id r = rid) (reservations s') = Some ?res' \<and>
             (\<forall>r \<in> set (reservations s'). r_id r \<noteq> rid \<longrightarrow>
                 r \<in> set (reservations (fst (expire_old_reservations now s)))) \<and>
             copies s' = copies (fst (expire_old_reservations now s)) \<and>
             loans s' = loans s \<and>
             ((\<forall>r \<in> set (reservations s). r_copy r = r_copy res \<and> r_status r = ''active'' \<longrightarrow> r = res)
                \<longrightarrow> filter (\<lambda>c. c_id c = r_copy res) (copies s') =
                    filter (\<lambda>c. c_id c = r_copy res) (copies s)) \<and>
             (\<forall>now'. \<not> ?exp < now' \<longrightarrow>
                 snd (extend_reservation now' reader rid s') = Err AlreadyExtended) \<and>
             (\<forall>now'. ?exp < now' \<longrightarrow>
                 snd (extend_reservation now' reader rid s') = Err ReservationNotActive) \<and>
             (\<forall>now' reader'. reader' \<noteq> reader \<longrightarrow>
                 snd (extend_reservation now' reader' rid s') = Err NotYourReservation) \<and>
             extended_for_good rid s'"
    using run f' others cps lns keep again late other efg by blast
qed (simp_all add: efg_extend_fails efg_sweep_update efg_sweep efg_create efg_cancel efg_extend
       efg_fulfill efg_issue efg_return efg_overdue)

theorem extend_reservation_once_witness:
  "reservation_keys_ok demo_db \<and>
   snd (extend_reservation (end_of_day 10) 1 1 demo_db) = Ok 11 \<and>
   reservations (fst (extend_reservation (end_of_day 10) 1 1 demo_db)) =
     [\<lparr>r_id = 1, r_status = ''active'', r_pickup_date = 11, r_created_at = 0,
       r_expires_at = 11 * 86400000000 + 86399000000, r_extended_once = True, r_reader = 1,
       r_copy = 2, r_branch = 1\<rparr>] \<and>
   copies (fst (extend_reservation (end_of_day 10) 1 1 demo_db)) = copies demo_db \<and>
   snd (extend_reservation (end_of_day 10) 1 1
          (fst (extend_reservation (end_of_day 10) 1 1 demo_db))) = Err AlreadyExtended \<and>
   extended_for_good 1 (fst (extend_reservation (end_of_day 10) 1 1 demo_db)) \<and>
   snd (extend_reservation (end_of_day 10) 2 1 demo_db) = Err NotYourReservation \<and>
   snd (extend_reservation (end_of_day 10 + 1) 1 1 demo_db) = Err ReservationNotActive"
  using extend_reservation_once[where s = demo_db and rid = 1 and reader = 1
      and now = "end_of_day 10"]
  by (simp add: reservation_keys_ok_def demo_db_def extend_reservation_def
        expire_old_reservations_def save_reservation_def Let_def end_of_day_def
        datetime_combine_def date_plus_days_def date_ok_def extended_for_good_def)

text \<open>
  A second call after the new expiry has passed: the sweep has expired the reservation,
  and the status is tested before the flag, so the failure is the not-active one.
\<close>

theorem extend_reservation_second_call_not_active:
  "snd (extend_reservation (end_of_day 10) 1 1 demo_db) = Ok 11 \<and>
   snd (extend_reservation (end_of_day 11 + 1) 1 1
          (fst (extend_reservation (end_of_day 10) 1 1 demo_db))) = Err ReservationNotActive \<and>
   snd (extend_reservation (end_of_day 11 + 1) 1 1
          (fst (extend_reservation (end_of_day 10) 1 1 demo_db))) \<noteq> Err AlreadyExtended"
  by (simp add: demo_db_def extend_reservation_def expire_old_reservations_def
        save_reservation_def Let_def end_of_day_def datetime_combine_def date_plus_days_def
        date_ok_def)

section \<open>Reservation engine: fulfilment\<close>

lemma sweep_copy_simps [simp]:
  "c_id (sweep_copy now s c) = c_id c"
  "c_inventory_code (sweep_copy now s c) = c_inventory_code c"
  "c_book (sweep_copy now s c) = c_book c"
  "c_location (sweep_copy now s c) = c_location c"
  by (simp_all add: sweep_copy_def)

lemma sweep_copy_reserved_same:
  "c_status (sweep_copy now s c) = ''reserved'' \<Longrightarrow> sweep_copy now s c = c"
  by (auto simp: sweep_copy_def split: if_splits)

lemma sweep_copies:
  "copies (fst (expire_old_reservations now s)) = map (sweep_copy now s) (copies s)"
  unfolding expire_copies_eq sweep_copy_def ..

lemma sweep_find_copy:
  "find (\<lambda>c. c_id c = k) (copies (fst (expire_old_reservations now s))) =
     map_option (sweep_copy now s) (find (\<lambda>c. c_id c = k) (copies s))"
  unfolding sweep_copies by (rule find_map_same_key) simp

lemma find_map_all_key:
  "\<forall>x \<in> set (map (\<lambda>x. if key x = k then y else x) xs). key x = k \<longrightarrow> x = y"
  by auto

text \<open>
  Claim C5, as the code has it. \<^verbatim>\<open>fulfill_reservation\<close> runs the expiry sweep first,
  and what it tests and writes afterwards is the store the sweep leaves. When it returns
  a failure, the store is that one: nothing else is written. It returns a failure
  unless, in the swept store, the reservation exists and is active, its copy exists with
  status reserved, and no open or overdue loan is on that copy. When it succeeds, these
  hold in the swept store (and the two rows are those of the store before the sweep),
  the caller has a user row, the due date is a date, the loan appended is open, starts
  today and is due \<open>loan_days\<close> later, for the reader and the copy of the reservation;
  the reservation rows under the id become the fulfilled row, the copy rows under the
  copy's id the loaned row, and no other row is written. It succeeds whenever, after the
  sweep, the reservation is active, its copy reserved and free of open or overdue loans,
  the user rows of the reader and of the caller exist, and today and the due date are
  dates.
\<close>

theorem fulfill_reservation_spec:
  "(\<forall>s' e. fulfill_reservation today now librarian rid loan_days s = (s', Err e) \<longrightarrow>
       s' = fst (expire_old_reservations now s)) \<and>
   (\<not> (\<exists>res c. find (\<lambda>r. r_id r = rid) (reservations (fst (expire_old_reservations now s)))
                  = Some res \<and>
              r_status res = ''active'' \<and>
              find (\<lambda>c. c_id c = r_copy res) (copies (fst (expire_old_reservations now s)))
                  = Some c \<and>
              c_status c = ''reserved'' \<and>
              \<not> (\<exists>l \<in> set (loans (fst (expire_old_reservations now s))).
                     l_copy l = r_copy res \<and> l_status l \<in> set [''open'', ''overdue'']))
      \<longrightarrow> (\<exists>e. fulfill_reservation today now librarian rid loan_days s =
                  (fst (expire_old_reservations now s), Err e))) \<and>
   (\<forall>s' due. fulfill_reservation today now librarian rid loan_days s = (s', Ok due) \<longrightarrow>
      (\<exists>res c. find (\<lambda>r. r_id r = rid) (reservations (fst (expire_old_reservations now s)))
                  = Some res \<and>
              r_status res = ''active'' \<and>
              find (\<lambda>c. c_id c = r_copy res) (copies (fst (expire_old_reservations now s)))
                  = Some c \<and>
              c_status c = ''reserved'' \<and>
              \<not> (\<exists>l \<in> set (loans (fst (expire_old_reservations now s))).
                     l_copy l = r_copy res \<and> l_status l \<in> set [''open'', ''overdue'']) \<and>
              find (\<lambda>r. r_id r = rid) (reservations s) = Some res \<and>
              find (\<lambda>c. c_id c = r_copy res) (copies s) = Some c \<and>
              user_exists s librarian \<and> user_exists s (r_reader res) \<and>
              date_ok (today + loan_days) \<and>
              due = today + loan_days \<and>
              loans s' = loans s @
                [\<lparr>l_id = next_loan_id s, l_status = ''open'', l_start_date = today,
                  l_due_date = today + loan_days, l_return_date = None,
                  l_copy = r_copy res, l_reader = r_reader res, l_librarian = librarian\<rparr>] \<and>
              reservations s' =
                map (\<lambda>x. if r_id x = rid then res\<lparr>r_status := ''fulfilled''\<rparr> else x)
                  (reservations (fst (expire_old_reservations now s))) \<and>
              copies s' =
                map (\<lambda>x. if c_id x = r_copy res then c\<lparr>c_status := ''loaned''\<rparr> else x)
                  (copies (fst (expire_old_reservations now s))) \<and>
              (\<exists>r \<in> set (reservations s'). r_id r = rid) \<and>
              (\<forall>r \<in> set (reservations s'). r_id r = rid \<longrightarrow> r = res\<lparr>r_status := ''fulfilled''\<rparr>) \<and>
              (\<exists>x \<in> set (copies s'). c_id x = r_copy res) \<and>
              (\<forall>x \<in> set (copies s'). c_id x = r_copy res \<longrightarrow> x = c\<lparr>c_status := ''loaned''\<rparr>))) \<and>
   (\<forall>res c u.
        find (\<lambda>r. r_id r = rid) (reservations (fst (expire_old_reservations now s))) = Some res \<and>
        r_status res = ''active'' \<and>
        find (\<lambda>c. c_id c = r_copy res) (copies (fst (expire_old_reservations now s))) = Some c \<and>
        c_status c = ''reserved'' \<and>
        \<not> (\<exists>l \<in> set (loans (fst (expire_old_reservations now s))).
               l_copy l = r_copy res \<and> l_status l \<in> set [''open'', ''overdue'']) \<and>
        find (\<lambda>u. u_id u = r_reader res) (users s) = Some u \<and>
        user_exists s librarian \<and> date_ok today \<and> date_ok (today + loan_days)
      \<longrightarrow> (\<exists>s'. fulfill_reservation today now librarian rid loan_days s = (s', Ok (today + loan_days))))"
proof (intro conjI impI allI)
  fix s' e
  assume "fulfill_reservation today now librarian rid loan_days s = (s', Err e)"
  then show "s' = fst (expire_old_reservations now s)"
    by (auto simp: fulfill_reservation_def Let_def split: option.splits if_splits prod.splits)
next
  let ?s1 = "fst (expire_old_reservations now s)"
  assume n: "\<not> (\<exists>res c. find (\<lambda>r. r_id r = rid) (reservations ?s1) = Some res \<and>
              r_status res = ''active'' \<and>
              find (\<lambda>c. c_id c = r_copy res) (copies ?s1) = Some c \<and>
              c_status c = ''reserved'' \<and>
              \<not> (\<exists>l \<in> set (loans ?s1).
                     l_copy l = r_copy res \<and> l_status l \<in> set [''open'', ''overdue'']))"
  show "\<exists>e. fulfill_reservation today now librarian rid loan_days s = (?s1, Err e)"
  proof (cases "find (\<lambda>r. r_id r = rid) (reservations ?s1)")
    case None
    then show ?thesis by (simp add: fulfill_reservation_def Let_def)
  next
    case r: (Some res)
    show ?thesis
    proof (cases "find (\<lambda>c. c_id c = r_copy res) (copies ?s1)")
      case None
      with r show ?thesis by (simp add: fulfill_reservation_def Let_def)
    next
      case c: (Some c)
      from find_Some_key[OF c] have cid: "c_id c = r_copy res" by simp
      from n r c have "r_status res \<noteq> ''active'' \<or> c_status c \<noteq> ''reserved'' \<or>
          (\<exists>l \<in> set (loans ?s1). l_copy l = r_copy res \<and> l_status l \<in> set [''open'', ''overdue''])"
        by auto
      then show ?thesis
        using r c cid
        by (auto simp: fulfill_reservation_def Let_def ACTIVE_LOAN_STATUSES_def)
    qed
  qed
next
  fix s' due
  let ?s1 = "fst (expire_old_reservations now s)"
  assume ok: "fulfill_reservation today now librarian rid loan_days s = (s', Ok due)"
  from fulfill_reservation_Ok[OF ok] obtain res1 c1 u s2 lid where
    f1: "find (\<lambda>r. r_id r = rid) (reservations ?s1) = Some res1" and
    fc1: "find (\<lambda>c. c_id c = r_copy res1) (copies ?s1) = Some c1" and
    act: "r_status res1 = ''active''" and rsv: "c_status c1 = ''reserved''" and
    nol: "\<not> (\<exists>l \<in> set (loans s). l_copy l = c_id c1 \<and> l_status l \<in> set ACTIVE_LOAN_STATUSES)" and
    fu: "find (\<lambda>u. u_id u = r_reader res1) (users s) = Some u" and
    due: "due = today + loan_days" and dok: "date_ok due" and lib: "user_exists s librarian" and
    lc: "loan_create
       \<lparr>l_id = 0, l_status = ''open'', l_start_date = today,
        l_due_date = today + loan_days, l_return_date = None,
        l_copy = c_id c1, l_reader = u_id u, l_librarian = librarian\<rparr> ?s1 = (s2, Some lid)" and
    s': "s' = save_copy (c1\<lparr>c_status := ''loaned''\<rparr>)
            (save_reservation (res1\<lparr>r_status := ''fulfilled''\<rparr>) s2)"
    by blast
  from f1 obtain res where r: "find (\<lambda>r. r_id r = rid) (reservations s) = Some res"
    and r1: "res1 = sweep_row now s res"
    by (auto simp: sweep_find)
  from act r1 sweep_row_active_same[of now s res] have req: "res1 = res" by simp
  from fc1 req obtain c where c: "find (\<lambda>c. c_id c = r_copy res) (copies s) = Some c"
    and cc1: "c1 = sweep_copy now s c"
    by (auto simp: sweep_find_copy)
  from rsv cc1 sweep_copy_reserved_same[of now s c] have ceq: "c1 = c" by simp
  from find_Some_key[OF c] have cid: "c_id c = r_copy res" by simp
  from find_Some_key[OF r] have rid: "r_id res = rid" "res \<in> set (reservations s)" by auto
  from find_Some_key[OF fu] req have uid: "u_id u = r_reader res" by simp
  from find_user_exists[OF fu] uid have rdr: "user_exists s (r_reader res)" by simp
  from find_Some_key[OF f1] req have rin1: "res \<in> set (reservations ?s1)" by simp
  from find_Some_key[OF fc1] ceq have cin1: "c \<in> set (copies ?s1)" by simp
  note lcs = loan_create_Some[OF lc]
  have loans': "loans s' = loans s @
                [\<lparr>l_id = next_loan_id s, l_status = ''open'', l_start_date = today,
                  l_due_date = today + loan_days, l_return_date = None,
                  l_copy = r_copy res, l_reader = r_reader res, l_librarian = librarian\<rparr>]"
    using lcs s' ceq cid uid
    by (simp add: save_copy_def save_reservation_def expire_other_fields)
  have rs': "reservations s' =
      map (\<lambda>x. if r_id x = rid then res\<lparr>r_status := ''fulfilled''\<rparr> else x) (reservations ?s1)"
    using lcs s' req rid by (simp add: save_copy_def save_reservation_def)
  have cs': "copies s' =
      map (\<lambda>x. if c_id x = r_copy res then c\<lparr>c_status := ''loaned''\<rparr> else x) (copies ?s1)"
    using lcs s' ceq cid by (simp add: save_copy_def save_reservation_def)
  have rex: "\<exists>r \<in> set (reservations s'). r_id r = rid"
  proof -
    from rin1 rid have "res\<lparr>r_status := ''fulfilled''\<rparr> \<in> set (reservations s')"
      unfolding rs' set_map by (intro image_eqI[where x = res]) simp_all
    with rid show ?thesis by (intro bexI[where x = "res\<lparr>r_status := ''fulfilled''\<rparr>"]) simp_all
  qed
  have rall: "\<forall>r \<in> set (reservations s'). r_id r = rid \<longrightarrow> r = res\<lparr>r_status := ''fulfilled''\<rparr>"
    unfolding rs' by auto
  have cex: "\<exists>x \<in> set (copies s'). c_id x = r_copy res"
  proof -
    from cin1 cid have "c\<lparr>c_status := ''loaned''\<rparr> \<in> set (copies s')"
      unfolding cs' set_map by (intro image_eqI[where x = c]) simp_all
    with cid show ?thesis by (intro bexI[where x = "c\<lparr>c_status := ''loaned''\<rparr>"]) simp_all
  qed
  have call: "\<forall>x \<in> set (copies s'). c_id x = r_copy res \<longrightarrow> x = c\<lparr>c_status := ''loaned''\<rparr>"
    unfolding cs' by auto
  have nol': "\<not> (\<exists>l \<in> set (loans ?s1). l_copy l = r_copy res \<and> l_status l \<in> set [''open'', ''overdue''])"
    using nol ceq cid by (simp add: ACTIVE_LOAN_STATUSES_def expire_other_fields)
  from f1 req have f1': "find (\<lambda>r. r_id r = rid) (reservations ?s1) = Some res" by simp
  from fc1 req ceq have fc1': "find (\<lambda>c. c_id c = r_copy res) (copies ?s1) = Some c" by simp
  from act req have act': "r_status res = ''active''" by simp
  from rsv ceq have rsv': "c_status c = ''reserved''" by simp
  from dok due have dok': "date_ok (today + loan_days)" by simp
  show "\<exists>res c. find (\<lambda>r. r_id r = rid) (reservations ?s1) = Some res \<and>
              r_status res = ''active'' \<and>
              find (\<lambda>c. c_id c = r_copy res) (copies ?s1) = Some c \<and>
              c_status c = ''reserved'' \<and>
              \<not> (\<exists>l \<in> set (loans ?s1).
                     l_copy l = r_copy res \<and> l_status l \<in> set [''open'', ''overdue'']) \<and>
              find (\<lambda>r. r_id r = rid) (reservations s) = Some res \<and>
              find (\<lambda>c. c_id c = r_copy res) (copies s) = Some c \<and>
              user_exists s librarian \<and> user_exists s (r_reader res) \<and>
              date_ok (today + loan_days) \<and>
              due = today + loan_days \<and>
              loans s' = loans s @
                [\<lparr>l_id = next_loan_id s, l_status = ''open'', l_start_date = today,
                  l_due_date = today + loan_days, l_return_date = None,
                  l_copy = r_copy res, l_reader = r_reader res, l_librarian = librarian\<rparr>] \<and>
              reservations s' =
                map (\<lambda>x. if r_id x = rid then res\<lparr>r_status := ''fulfilled''\<rparr> else x)
                  (reservations ?s1) \<and>
              copies s' =
                map (\<lambda>x. if c_id x = r_copy res then c\<lparr>c_status := ''loaned''\<rparr> else x)
                  (copies ?s1) \<and>
              (\<exists>r \<in> set (reservations s'). r_id r = rid) \<and>
              (\<forall>r \<in> set (reservations s'). r_id r = rid \<longrightarrow> r = res\<lparr>r_status := ''fulfilled''\<rparr>) \<and>
              (\<exists>x \<in> set (copies s'). c_id x = r_copy res) \<and>
              (\<forall>x \<in> set (copies s'). c_id x = r_copy res \<longrightarrow> x = c\<lparr>c_status := ''loaned''\<rparr>)"
    apply (rule exI[where x = res], rule exI[where x = c])
    using f1' act' fc1' rsv' nol' r c lib rdr dok' due loans' rs' cs' rex rall cex call
    apply (intro conjI)
    apply assumption+
    done
next
  fix res c u
  let ?s1 = "fst (expire_old_reservations now s)"
  assume a: "find (\<lambda>r. r_id r = rid) (reservations ?s1) = Some res \<and>
        r_status res = ''active'' \<and>
        find (\<lambda>c. c_id c = r_copy res) (copies ?s1) = Some c \<and>
        c_status c = ''reserved'' \<and>
        \<not> (\<exists>l \<in> set (loans ?s1). l_copy l = r_copy res \<and> l_status l \<in> set [''open'', ''overdue'']) \<and>
        find (\<lambda>u. u_id u = r_reader res) (users s) = Some u \<and>
        user_exists s librarian \<and> date_ok today \<and> date_ok (today + loan_days)"
  then have "find (\<lambda>c. c_id c = r_copy res) (copies ?s1) = Some c"
    by simp
  from find_Some_key[OF this] have cid: "c_id c = r_copy res" by simp
  from a have fu: "find (\<lambda>u. u_id u = r_reader res) (users s) = Some u" by simp
  from find_user_exists[OF fu] have ue: "user_exists s (u_id u)" .
  from a have dp: "date_plus_days today loan_days = Some (today + loan_days)"
    by (auto simp: date_plus_days_def date_ok_def)
  have ux: "\<And>k. user_exists ?s1 k = user_exists s k"
    by (simp add: user_exists_def expire_other_fields)
  from a cid ue dp ux
  show "\<exists>s'. fulfill_reservation today now librarian rid loan_days s = (s', Ok (today + loan_days))"
    by (simp add: fulfill_reservation_def Let_def expire_other_fields loan_create_def
          ACTIVE_LOAN_STATUSES_def)
qed

theorem fulfill_reservation_spec_witness:
  "snd (fulfill_reservation 9 (end_of_day 9) 2 1 14 demo_db) = Ok 23 \<and>
   loans (fst (fulfill_reservation 9 (end_of_day 9) 2 1 14 demo_db)) =
     loans demo_db @
       [\<lparr>l_id = 2, l_status = ''open'', l_start_date = 9, l_due_date = 23,
         l_return_date = None, l_copy = 2, l_reader = 1, l_librarian = 2\<rparr>] \<and>
   map r_status (reservations (fst (fulfill_reservation 9 (end_of_day 9) 2 1 14 demo_db)))
     = [''fulfilled''] \<and>
   map c_status (copies (fst (fulfill_reservation 9 (end_of_day 9) 2 1 14 demo_db)))
     = [''available'', ''loaned'', ''loaned''] \<and>
   fulfill_reservation 9 (end_of_day 9) 2 7 14 demo_db = (demo_db, Err ReservationNotFound) \<and>
   snd (fulfill_reservation 11 (end_of_day 10 + 1) 2 1 14 demo_db) = Err ReservationNotActive \<and>
   fulfill_reservation 9 (end_of_day 9) 99 1 14 demo_db
     = (demo_db\<lparr>next_loan_id := 3\<rparr>, Exc IntegrityError) \<and>
   fulfill_reservation 9 (end_of_day 9) 2 1 4000000 demo_db = (demo_db, Exc OverflowError)"
  using fulfill_reservation_spec[where s = demo_db and rid = 1 and librarian = 2
      and now = "end_of_day 9" and today = 9 and loan_days = 14]
  by (simp add: demo_db_def fulfill_reservation_def expire_old_reservations_def
        save_reservation_def save_copy_def loan_create_def ACTIVE_LOAN_STATUSES_def
        Let_def end_of_day_def datetime_combine_def date_plus_days_def date_ok_def
        user_exists_def rollback_def)

text \<open>
  A failed call that changes the store: the reservation asked for does not exist, and
  the sweep run first expires reservation 1 and frees its copy.
\<close>

theorem fulfill_failure_changes_store:
  "snd (fulfill_reservation 11 (end_of_day 10 + 1) 2 7 14 demo_db) = Err ReservationNotFound \<and>
   fst (fulfill_reservation 11 (end_of_day 10 + 1) 2 7 14 demo_db) \<noteq> demo_db \<and>
   map r_status (reservations demo_db) = [''active''] \<and>
   map r_status (reservations (fst (fulfill_reservation 11 (end_of_day 10 + 1) 2 7 14 demo_db)))
     = [''expired''] \<and>
   map c_status (copies demo_db) = [''available'', ''reserved'', ''loaned''] \<and>
   map c_status (copies (fst (fulfill_reservation 11 (end_of_day 10 + 1) 2 7 14 demo_db)))
     = [''available'', ''available'', ''loaned'']"
  by (simp add: demo_db_def fulfill_reservation_def expire_old_reservations_def
        Let_def end_of_day_def datetime_combine_def)

section \<open>Counting the holders of a copy\<close>

lemma count_map_le:
  "(\<And>x. x \<in> set xs \<Longrightarrow> P (f x) \<Longrightarrow> P x) \<Longrightarrow>
   length (filter P (map f xs)) \<le> length (filter P xs)"
  by (induction xs) (auto simp: le_SucI)

lemma count_map_eq:
  "(\<And>x. x \<in> set xs \<Longrightarrow> P (f x) = P x) \<Longrightarrow>
   length (filter P (map f xs)) = length (filter P xs)"
  by (induction xs) auto

lemma count_map_less:
  assumes "\<And>x. x \<in> set xs \<Longrightarrow> P (f x) \<Longrightarrow> P x"
    and "y \<in> set xs" and "P y" and "\<not> P (f y)"
  shows "length (filter P (map f xs)) < length (filter P xs)"
  using assms
proof (induction xs)
  case Nil
  then show ?case by simp
next
  case (Cons x xs)
  have le: "length (filter P (map f xs)) \<le> length (filter P xs)"
    by (rule count_map_le) (use Cons.prems(1) in auto)
  show ?case
  proof (cases "y = x")
    case True
    with Cons.prems le show ?thesis by (simp add: le_imp_less_Suc)
  next
    case False
    with Cons.prems have "y \<in> set xs" by simp
    with Cons have "length (filter P (map f xs)) < length (filter P xs)" by simp
    with Cons.prems(1)[of x] show ?thesis by (auto simp: less_SucI)
  qed
qed

lemma store_consistentI:
  assumes "reservation_keys_ok s"
    and "\<And>c. holders s c \<le> 1"
    and "\<And>x. x \<in> set (copies s) \<Longrightarrow> c_status x = ''available'' \<Longrightarrow> holders s (c_id x) = 0"
  shows "store_consistent s"
  using assms by (simp add: store_consistent_def)

lemma store_consistentD:
  assumes "store_consistent s"
  shows "reservation_keys_ok s"
    and "holders s c \<le> 1"
    and "x \<in> set (copies s) \<Longrightarrow> c_status x = ''available'' \<Longrightarrow> holders s (c_id x) = 0"
  using assms by (simp_all add: store_consistent_def)

lemma sweep_holds: "reservation_holds c (sweep_row now s r) \<Longrightarrow> reservation_holds c r"
  using sweep_row_active_same[of now s r] by (auto simp: reservation_holds_def)

lemma sweep_row_expirable:
  "r \<in> set (reservations s) \<Longrightarrow> expirable now r \<Longrightarrow> r_status (sweep_row now s r) = ''expired''"
  by (auto simp: sweep_row_def)

lemma sweep_keys: "reservation_keys_ok s \<Longrightarrow> reservation_keys_ok (fst (expire_old_reservations now s))"
  by (simp add: reservation_keys_ok_def sweep_reservations expire_other_fields comp_def)

lemma sweep_holders_le: "holders (fst (expire_old_reservations now s)) c \<le> holders s c"
  unfolding holders_def expire_other_fields sweep_reservations
  by (intro add_left_mono count_map_le) (rule sweep_holds)

lemma sweep_holders_less:
  assumes "r \<in> set (reservations s)" "expirable now r"
  shows "holders (fst (expire_old_reservations now s)) (r_copy r) < holders s (r_copy r)"
  unfolding holders_def expire_other_fields sweep_reservations
proof (intro add_strict_left_mono count_map_less[where y = r])
  show "reservation_holds (r_copy r) r" using assms(2) by (simp add: reservation_holds_def expirable_def)
  show "\<not> reservation_holds (r_copy r) (sweep_row now s r)"
    using sweep_row_expirable[OF assms] by (simp add: reservation_holds_def)
qed (use assms in \<open>auto intro: sweep_holds\<close>)

lemma store_consistent_sweep:
  assumes sc: "store_consistent s"
  shows "store_consistent (fst (expire_old_reservations now s))"
proof (rule store_consistentI)
  show "reservation_keys_ok (fst (expire_old_reservations now s))"
    using store_consistentD(1)[OF sc] by (rule sweep_keys)
next
  fix c
  show "holders (fst (expire_old_reservations now s)) c \<le> 1"
    using sweep_holders_le[of now s c] store_consistentD(2)[OF sc, of c] by simp
next
  fix x
  assume "x \<in> set (copies (fst (expire_old_reservations now s)))" and av: "c_status x = ''available''"
  then obtain x0 where x0: "x0 \<in> set (copies s)" and x: "x = sweep_copy now s x0"
    by (auto simp: sweep_copies)
  show "holders (fst (expire_old_reservations now s)) (c_id x) = 0"
  proof (cases "sweep_copy now s x0 = x0")
    case True
    with x x0 av store_consistentD(3)[OF sc, of x0] have "holders s (c_id x) = 0" by simp
    with sweep_holders_le[of now s "c_id x"] show ?thesis by simp
  next
    case False
    then obtain r where r: "r \<in> set (reservations s)" "expirable now r" "r_copy r = c_id x0"
      by (auto simp: sweep_copy_def split: if_splits)
    from sweep_holders_less[OF r(1,2)] store_consistentD(2)[OF sc, of "r_copy r"] r(3) x
    show ?thesis by simp
  qed
qed

lemma holders_cong:
  "loans s' = loans s \<Longrightarrow> reservations s' = reservations s \<Longrightarrow> holders s' c = holders s c"
  by (simp add: holders_def)

lemma keys_cong:
  "reservations s' = reservations s \<Longrightarrow> next_reservation_id s' = next_reservation_id s \<Longrightarrow>
   reservation_keys_ok s' = reservation_keys_ok s"
  by (simp add: reservation_keys_ok_def)

lemma same_key_same_row:
  "distinct (map key xs) \<Longrightarrow> x \<in> set xs \<Longrightarrow> y \<in> set xs \<Longrightarrow> key x = key y \<Longrightarrow> x = y"
  by (auto simp: distinct_map dest: inj_onD)

lemma save_reservation_keys:
  "reservation_keys_ok s \<Longrightarrow> r_id r' = r_id r \<Longrightarrow> r \<in> set (reservations s) \<Longrightarrow>
   reservation_keys_ok (save_reservation r' s)"
  unfolding reservation_keys_ok_def save_reservation_def
  by (auto simp: comp_def if_distrib[of r_id] cong: if_cong map_cong)

lemma save_reservation_holders_le:
  assumes "reservation_keys_ok s" "r \<in> set (reservations s)" "r_id r' = r_id r"
    and "reservation_holds c r' \<Longrightarrow> reservation_holds c r"
  shows "holders (save_reservation r' s) c \<le> holders s c"
proof -
  have "length (filter (reservation_holds c)
                  (map (\<lambda>x. if r_id x = r_id r' then r' else x) (reservations s)))
        \<le> length (filter (reservation_holds c) (reservations s))"
  proof (rule count_map_le)
  fix x assume x: "x \<in> set (reservations s)"
    and h: "reservation_holds c (if r_id x = r_id r' then r' else x)"
  show "reservation_holds c x"
  proof (cases "r_id x = r_id r'")
    case True
    with assms x have "x = r"
      by (auto simp: reservation_keys_ok_def intro: same_key_same_row[of r_id "reservations s"])
    with True h assms(4) show ?thesis by simp
  next
    case False
    with h show ?thesis by simp
  qed
  qed
  then show ?thesis by (simp add: holders_def save_reservation_def)
qed

lemma save_reservation_holders_less:
  assumes "reservation_keys_ok s" "r \<in> set (reservations s)" "r_id r' = r_id r"
    and "reservation_holds c r" and "\<not> reservation_holds c r'"
  shows "holders (save_reservation r' s) c < holders s c"
proof -
  have "length (filter (reservation_holds c)
                  (map (\<lambda>x. if r_id x = r_id r' then r' else x) (reservations s)))
        < length (filter (reservation_holds c) (reservations s))"
  proof (rule count_map_less[where y = r])
  fix x assume x: "x \<in> set (reservations s)"
    and h: "reservation_holds c (if r_id x = r_id r' then r' else x)"
  with assms(5) show "reservation_holds c x" by (auto split: if_splits)
next
  show "\<not> reservation_holds c (if r_id r = r_id r' then r' else r)"
    using assms by simp
  qed (use assms in auto)
  then show ?thesis by (simp add: holders_def save_reservation_def)
qed

lemma save_reservation_holders_eq:
  assumes "reservation_keys_ok s" "r \<in> set (reservations s)" "r_id r' = r_id r"
    and "reservation_holds c r' = reservation_holds c r"
  shows "holders (save_reservation r' s) c = holders s c"
proof -
  have "length (filter (reservation_holds c)
                  (map (\<lambda>x. if r_id x = r_id r' then r' else x) (reservations s)))
        = length (filter (reservation_holds c) (reservations s))"
  proof (rule count_map_eq)
  fix x assume x: "x \<in> set (reservations s)"
  show "reservation_holds c (if r_id x = r_id r' then r' else x) = reservation_holds c x"
  proof (cases "r_id x = r_id r'")
    case True
    with assms x have "x = r"
      by (auto simp: reservation_keys_ok_def intro: same_key_same_row[of r_id "reservations s"])
    with True assms(4) show ?thesis by simp
  next
    case False
    then show ?thesis by simp
  qed
  qed
  then show ?thesis by (simp add: holders_def save_reservation_def)
qed

lemma store_consistent_cancel:
  assumes sc: "store_consistent s"
  shows "store_consistent (fst (cancel_reservation now reader rid s))"
proof -
  let ?s1 = "fst (expire_old_reservations now s)"
  note sc1 = store_consistent_sweep[OF sc, of now]
  define r where "r = snd (cancel_reservation now reader rid s)"
  define s' where "s' = fst (cancel_reservation now reader rid s)"
  have eq: "cancel_reservation now reader rid s = (s', r)" by (simp add: r_def s'_def)
  show ?thesis
  proof (cases "r = Ok ()")
    case False
    with cancel_reservation_not_Ok[OF eq] sc1 show ?thesis by (simp add: s'_def)
  next
    case True
    from cancel_reservation_Ok[OF eq[unfolded True]] obtain res where
      f: "find (\<lambda>r. r_id r = rid) (reservations ?s1) = Some res"
      and act: "r_status res = ''active''"
      and s'eq: "s' = (save_reservation (res\<lparr>r_status := ''cancelled''\<rparr>) ?s1)
                \<lparr>copies := map (\<lambda>c. if c_id c = r_copy res \<and> c_status c = ''reserved''
                                    then c\<lparr>c_status := ''available''\<rparr> else c)
                   (copies ?s1)\<rparr>"
      by blast
    let ?s2 = "save_reservation (res\<lparr>r_status := ''cancelled''\<rparr>) ?s1"
    from find_in_set[OF f] have rin: "res \<in> set (reservations ?s1)" by simp
    note k1 = store_consistentD(1)[OF sc1]
    have h: "holders s' c = holders ?s2 c" for c
      unfolding s'eq by (rule holders_cong) simp_all
    have le: "holders s' c \<le> holders ?s1 c" for c
      unfolding h by (rule save_reservation_holders_le[OF k1 rin]) (simp_all add: reservation_holds_def)
    have less: "holders s' (r_copy res) < holders ?s1 (r_copy res)"
      unfolding h using act
      by (intro save_reservation_holders_less[OF k1 rin]) (simp_all add: reservation_holds_def)
    have "store_consistent s'"
    proof (rule store_consistentI)
      have "reservation_keys_ok ?s2" by (rule save_reservation_keys[OF k1 _ rin]) simp
      moreover have "reservation_keys_ok s' = reservation_keys_ok ?s2"
        unfolding s'eq by (rule keys_cong) simp_all
      ultimately show "reservation_keys_ok s'" by simp
    next
      fix c show "holders s' c \<le> 1"
        using le[of c] store_consistentD(2)[OF sc1, of c] by simp
    next
      fix x assume "x \<in> set (copies s')" and av: "c_status x = ''available''"
      then obtain x0 where x0: "x0 \<in> set (copies ?s1)"
        and x: "x = (if c_id x0 = r_copy res \<and> c_status x0 = ''reserved''
                     then x0\<lparr>c_status := ''available''\<rparr> else x0)"
        unfolding s'eq by auto
      show "holders s' (c_id x) = 0"
      proof (cases "c_id x0 = r_copy res \<and> c_status x0 = ''reserved''")
        case True
        with x less store_consistentD(2)[OF sc1, of "r_copy res"] show ?thesis by simp
      next
        case False
        with x x0 av store_consistentD(3)[OF sc1, of x0] le[of "c_id x0"] show ?thesis by simp
      qed
    qed
    then show ?thesis by (simp add: s'_def)
  qed
qed

lemma store_consistent_extend:
  assumes sc: "store_consistent s"
  shows "store_consistent (fst (extend_reservation now reader rid s))"
proof -
  let ?s1 = "fst (expire_old_reservations now s)"
  note sc1 = store_consistent_sweep[OF sc, of now]
  define r where "r = snd (extend_reservation now reader rid s)"
  define s' where "s' = fst (extend_reservation now reader rid s)"
  have eq: "extend_reservation now reader rid s = (s', r)" by (simp add: r_def s'_def)
  show ?thesis
  proof (cases "\<exists>d. r = Ok d")
    case False
    with extend_reservation_not_Ok[OF eq] sc1 show ?thesis by (simp add: s'_def)
  next
    case True
    then obtain d where "r = Ok d" ..
    from extend_reservation_Ok[OF eq[unfolded this]] obtain res where
      f: "find (\<lambda>r. r_id r = rid) (reservations ?s1) = Some res"
      and s'eq: "s' = save_reservation
            (res\<lparr>r_pickup_date := r_pickup_date res + 1,
                 r_expires_at := end_of_day (r_pickup_date res + 1),
                 r_extended_once := True\<rparr>) ?s1"
      by blast
    from find_in_set[OF f] have rin: "res \<in> set (reservations ?s1)" by simp
    note k1 = store_consistentD(1)[OF sc1]
    have h: "holders s' c = holders ?s1 c" for c
      unfolding s'eq
      by (rule save_reservation_holders_eq[OF k1 rin]) (simp_all add: reservation_holds_def)
    have "store_consistent s'"
    proof (rule store_consistentI)
      show "reservation_keys_ok s'"
        unfolding s'eq by (rule save_reservation_keys[OF k1 _ rin]) simp
    next
      fix c show "holders s' c \<le> 1"
        unfolding h by (rule store_consistentD(2)[OF sc1])
    next
      fix x assume "x \<in> set (copies s')" and av: "c_status x = ''available''"
      then have "x \<in> set (copies ?s1)" unfolding s'eq by (simp add: save_reservation_def)
      with av show "holders s' (c_id x) = 0"
        unfolding h by (simp add: store_consistentD(3)[OF sc1])
    qed
    then show ?thesis by (simp add: s'_def)
  qed
qed

section \<open>Reservation engine: creation\<close>

lemma select_available_copy_None:
  "select_available_copy book_id branch_id s = None \<longleftrightarrow>
     \<not> (\<exists>c \<in> set (copies s). available_at book_id branch_id s c)"
proof -
  have "sort_key c_id (filter (available_at book_id branch_id s) (copies s)) = [] \<longleftrightarrow>
        filter (available_at book_id branch_id s) (copies s) = []"
    by (metis length_sort list.size(3) length_0_conv)
  then show ?thesis
    by (auto simp: select_available_copy_def available_at_def[abs_def] filter_empty_conv
        split: list.splits)
qed

lemma select_available_copy_Some:
  assumes "select_available_copy book_id branch_id s = Some c"
  shows "c \<in> set (copies s) \<and> available_at book_id branch_id s c \<and>
         (\<forall>c' \<in> set (copies s). available_at book_id branch_id s c' \<longrightarrow> c_id c \<le> c_id c')"
proof -
  let ?xs = "filter (available_at book_id branch_id s) (copies s)"
  from assms obtain rest where srt: "sort_key c_id ?xs = c # rest"
    by (auto simp: select_available_copy_def available_at_def[abs_def] split: list.splits)
  have "set (sort_key c_id ?xs) = set ?xs" by simp
  with srt have cin: "c \<in> set ?xs" by (metis list.set_intros(1))
  have "sorted (map c_id (sort_key c_id ?xs))" by (rule sorted_sort_key)
  with srt have "\<forall>y \<in> set rest. c_id c \<le> c_id y" by simp
  moreover have "set ?xs = insert c (set rest)"
    using srt by (metis list.simps(15) set_sort)
  ultimately have "\<forall>c' \<in> set ?xs. c_id c \<le> c_id c'" by auto
  with cin show ?thesis by auto
qed

lemma sweep_keeps_available:
  assumes "c \<in> set (copies s)" and "available_at book_id branch_id s c"
  shows "c \<in> set (copies (fst (expire_old_reservations now s))) \<and>
         available_at book_id branch_id (fst (expire_old_reservations now s)) c"
proof -
  from assms(2) have "sweep_copy now s c = c" by (simp add: sweep_copy_def available_at_def)
  with assms(1) have "c \<in> set (copies (fst (expire_old_reservations now s)))"
    unfolding sweep_copies set_map by (intro image_eqI[where x = c]) simp_all
  with assms(2) show ?thesis by (simp add: available_at_def expire_other_fields)
qed

text \<open>
  Claim C4, as the code has it. A pickup date before today, or after the third day
  from today, gives the validation failure and the store unchanged. Otherwise the expiry
  sweep runs, and availability is read on the store it leaves (a copy available before
  the sweep is available after it): with no available copy of the book at the branch
  the call fails with the no-copies failure; with one, the copy selected is an
  available one of lowest id, and when no active reservation refers to it already and
  the reader has a user row, that copy becomes reserved and the reservation appended is
  active, for the pickup date, expiring at 23:59:59 of that date, not extended. On a
  consistent store no available copy is referred to by an active reservation, and the
  call succeeds whenever an available copy exists after the sweep. The third day from
  today is taken to be a date.
\<close>

theorem create_reservation_spec:
  "(pickup < today \<or> (date_ok (today + 3) \<and> pickup > today + 3) \<longrightarrow>
      create_reservation today now reader book_id branch_id pickup s = (s, Err BadPickupDate)) \<and>
   (today \<le> pickup \<and> pickup \<le> today + 3 \<and> date_ok (today + 3) \<longrightarrow>
      (let s1 = fst (expire_old_reservations now s) in
       (\<not> (\<exists>c \<in> set (copies s1). available_at book_id branch_id s1 c) \<longrightarrow>
          create_reservation today now reader book_id branch_id pickup s = (s1, Err NoFreeCopies)) \<and>
       ((\<exists>c \<in> set (copies s1). available_at book_id branch_id s1 c) \<longrightarrow>
          (\<exists>c \<in> set (copies s1).
              available_at book_id branch_id s1 c \<and>
              (\<forall>c' \<in> set (copies s1). available_at book_id branch_id s1 c' \<longrightarrow> c_id c \<le> c_id c') \<and>
              select_available_copy book_id branch_id s1 = Some c \<and>
              (\<not> (\<exists>r \<in> set (reservations s1). r_copy r = c_id c \<and> r_status r = ''active'') \<and>
               user_exists s reader \<longrightarrow>
                 (\<exists>s'. create_reservation today now reader book_id branch_id pickup s =
                         (s', Ok (next_reservation_id s)) \<and>
                       reservations s' = reservations s1 @
                         [\<lparr>r_id = next_reservation_id s, r_status = ''active'',
                           r_pickup_date = pickup, r_created_at = now,
                           r_expires_at = datetime_combine pickup 23 59 59,
                           r_extended_once = False, r_reader = reader,
                           r_copy = c_id c, r_branch = branch_id\<rparr>] \<and>
                       copies s' =
                         map (\<lambda>x. if c_id x = c_id c then c\<lparr>c_status := ''reserved''\<rparr> else x)
                           (copies s1) \<and>
                       (\<forall>x \<in> set (copies s'). c_id x = c_id c \<longrightarrow> c_status x = ''reserved'') \<and>
                       loans s' = loans s)))) \<and>
       ((\<exists>c \<in> set (copies s). available_at book_id branch_id s c) \<longrightarrow>
          (\<exists>c \<in> set (copies s1). available_at book_id branch_id s1 c)))) \<and>
   (store_consistent s \<and> today \<le> pickup \<and> pickup \<le> today + 3 \<and> date_ok (today + 3) \<and>
      user_exists s reader \<and>
      (\<exists>c \<in> set (copies (fst (expire_old_reservations now s))).
          available_at book_id branch_id (fst (expire_old_reservations now s)) c)
    \<longrightarrow> (\<exists>s' k. create_reservation today now reader book_id branch_id pickup s = (s', Ok k)))"
proof (intro conjI impI)
  assume "pickup < today \<or> (date_ok (today + 3) \<and> pickup > today + 3)"
  then show "create_reservation today now reader book_id branch_id pickup s = (s, Err BadPickupDate)"
    by (auto simp: create_reservation_def date_plus_days_def)
next
  assume range: "today \<le> pickup \<and> pickup \<le> today + 3 \<and> date_ok (today + 3)"
  then have dp: "date_plus_days today 3 = Some (today + 3)" by (simp add: date_plus_days_def)
  define s1 where "s1 = fst (expire_old_reservations now s)"
  have none: "create_reservation today now reader book_id branch_id pickup s = (s1, Err NoFreeCopies)"
    if "\<not> (\<exists>c \<in> set (copies s1). available_at book_id branch_id s1 c)"
    using that range dp select_available_copy_None[of book_id branch_id s1]
    by (simp add: create_reservation_def s1_def Let_def)
  have some: "(\<exists>c \<in> set (copies s1).
              available_at book_id branch_id s1 c \<and>
              (\<forall>c' \<in> set (copies s1). available_at book_id branch_id s1 c' \<longrightarrow> c_id c \<le> c_id c') \<and>
              select_available_copy book_id branch_id s1 = Some c \<and>
              (\<not> (\<exists>r \<in> set (reservations s1). r_copy r = c_id c \<and> r_status r = ''active'') \<and>
               user_exists s reader \<longrightarrow>
                 (\<exists>s'. create_reservation today now reader book_id branch_id pickup s =
                         (s', Ok (next_reservation_id s)) \<and>
                       reservations s' = reservations s1 @
                         [\<lparr>r_id = next_reservation_id s, r_status = ''active'',
                           r_pickup_date = pickup, r_created_at = now,
                           r_expires_at = datetime_combine pickup 23 59 59,
                           r_extended_once = False, r_reader = reader,
                           r_copy = c_id c, r_branch = branch_id\<rparr>] \<and>
                       copies s' =
                         map (\<lambda>x. if c_id x = c_id c then c\<lparr>c_status := ''reserved''\<rparr> else x)
                           (copies s1) \<and>
                       (\<forall>x \<in> set (copies s'). c_id x = c_id c \<longrightarrow> c_status x = ''reserved'') \<and>
                       loans s' = loans s)))"
    if ex: "\<exists>c \<in> set (copies s1). available_at book_id branch_id s1 c"
  proof -
    from ex select_available_copy_None[of book_id branch_id s1]
    obtain c where sel: "select_available_copy book_id branch_id s1 = Some c" by auto
    note c = select_available_copy_Some[OF sel]
    let ?row = "\<lparr>r_id = 0, r_status = ''active'', r_pickup_date = pickup,
                     r_created_at = now, r_expires_at = end_of_day pickup,
                     r_extended_once = False, r_reader = reader,
                     r_copy = c_id c, r_branch = branch_id\<rparr>"
    let ?s2 = "save_copy (c\<lparr>c_status := ''reserved''\<rparr>) s1"
    have run: "create_reservation today now reader book_id branch_id pickup s =
        (case reservation_create ?row ?s2 of (s3, None) \<Rightarrow> (rollback s1 s3, Exc IntegrityError)
         | (s3, Some rid) \<Rightarrow> (s3, Ok rid))"
      using range dp sel by (simp add: create_reservation_def s1_def[symmetric] Let_def)
    have ux: "user_exists ?s2 reader = user_exists s reader"
      by (simp add: user_exists_def save_copy_def s1_def expire_other_fields)
    have fine: "\<exists>s'. create_reservation today now reader book_id branch_id pickup s =
                         (s', Ok (next_reservation_id s)) \<and>
                       reservations s' = reservations s1 @
                         [\<lparr>r_id = next_reservation_id s, r_status = ''active'',
                           r_pickup_date = pickup, r_created_at = now,
                           r_expires_at = datetime_combine pickup 23 59 59,
                           r_extended_once = False, r_reader = reader,
                           r_copy = c_id c, r_branch = branch_id\<rparr>] \<and>
                       copies s' =
                         map (\<lambda>x. if c_id x = c_id c then c\<lparr>c_status := ''reserved''\<rparr> else x)
                           (copies s1) \<and>
                       (\<forall>x \<in> set (copies s'). c_id x = c_id c \<longrightarrow> c_status x = ''reserved'') \<and>
                       loans s' = loans s"
      if "\<not> (\<exists>r \<in> set (reservations s1). r_copy r = c_id c \<and> r_status r = ''active'') \<and>
          user_exists s reader"
      unfolding run using that ux
      by (auto simp: reservation_create_def Let_def save_copy_def end_of_day_def s1_def
          expire_other_fields)
    from c sel fine show ?thesis by blast
  qed
  have keep: "\<exists>c \<in> set (copies s1). available_at book_id branch_id s1 c"
    if "\<exists>c \<in> set (copies s). available_at book_id branch_id s c"
    using that sweep_keeps_available[of _ s book_id branch_id now] unfolding s1_def by blast
  from none some keep show "let s1 = fst (expire_old_reservations now s) in
       (\<not> (\<exists>c \<in> set (copies s1). available_at book_id branch_id s1 c) \<longrightarrow>
          create_reservation today now reader book_id branch_id pickup s = (s1, Err NoFreeCopies)) \<and>
       ((\<exists>c \<in> set (copies s1). available_at book_id branch_id s1 c) \<longrightarrow>
          (\<exists>c \<in> set (copies s1).
              available_at book_id branch_id s1 c \<and>
              (\<forall>c' \<in> set (copies s1). available_at book_id branch_id s1 c' \<longrightarrow> c_id c \<le> c_id c') \<and>
              select_available_copy book_id branch_id s1 = Some c \<and>
              (\<not> (\<exists>r \<in> set (reservations s1). r_copy r = c_id c \<and> r_status r = ''active'') \<and>
               user_exists s reader \<longrightarrow>
                 (\<exists>s'. create_reservation today now reader book_id branch_id pickup s =
                         (s', Ok (next_reservation_id s)) \<and>
                       reservations s' = reservations s1 @
                         [\<lparr>r_id = next_reservation_id s, r_status = ''active'',
                           r_pickup_date = pickup, r_created_at = now,
                           r_expires_at = datetime_combine pickup 23 59 59,
                           r_extended_once = False, r_reader = reader,
                           r_copy = c_id c, r_branch = branch_id\<rparr>] \<and>
                       copies s' =
                         map (\<lambda>x. if c_id x = c_id c then c\<lparr>c_status := ''reserved''\<rparr> else x)
                           (copies s1) \<and>
                       (\<forall>x \<in> set (copies s'). c_id x = c_id c \<longrightarrow> c_status x = ''reserved'') \<and>
                       loans s' = loans s)))) \<and>
       ((\<exists>c \<in> set (copies s). available_at book_id branch_id s c) \<longrightarrow>
          (\<exists>c \<in> set (copies s1). available_at book_id branch_id s1 c))"
    unfolding s1_def[symmetric] Let_def by blast
next
  assume a: "store_consistent s \<and> today \<le> pickup \<and> pickup \<le> today + 3 \<and> date_ok (today + 3) \<and>
      user_exists s reader \<and>
      (\<exists>c \<in> set (copies (fst (expire_old_reservations now s))).
          available_at book_id branch_id (fst (expire_old_reservations now s)) c)"
  let ?s1 = "fst (expire_old_reservations now s)"
  from a have dp: "date_plus_days today 3 = Some (today + 3)" by (simp add: date_plus_days_def)
  from a obtain c where sel: "select_available_copy book_id branch_id ?s1 = Some c"
    using select_available_copy_None[of book_id branch_id ?s1] by auto
  note c = select_available_copy_Some[OF sel]
  from a have sc1: "store_consistent ?s1" by (simp add: store_consistent_sweep)
  from store_consistentD(3)[OF sc1, of c] c have "holders ?s1 (c_id c) = 0"
    by (simp add: available_at_def)
  then have "\<not> (\<exists>r \<in> set (reservations ?s1). r_copy r = c_id c \<and> r_status r = ''active'')"
    by (auto simp: holders_def reservation_holds_def filter_empty_conv)
  moreover have "user_exists (save_copy (c\<lparr>c_status := ''reserved''\<rparr>) ?s1) reader"
    using a by (simp add: user_exists_def save_copy_def expire_other_fields)
  ultimately show "\<exists>s' k. create_reservation today now reader book_id branch_id pickup s = (s', Ok k)"
    using a sel dp
    by (simp add: create_reservation_def Let_def reservation_create_def save_copy_def)
qed

theorem create_reservation_spec_witness:
  "snd (create_reservation 10 (end_of_day 9) 2 1 1 13 demo_db) = Ok 2 \<and>
   map c_status (copies (fst (create_reservation 10 (end_of_day 9) 2 1 1 13 demo_db)))
     = [''reserved'', ''reserved'', ''loaned''] \<and>
   last (reservations (fst (create_reservation 10 (end_of_day 9) 2 1 1 13 demo_db)))
     = \<lparr>r_id = 2, r_status = ''active'', r_pickup_date = 13, r_created_at = end_of_day 9,
        r_expires_at = 13 * 86400000000 + 86399000000, r_extended_once = False, r_reader = 2,
        r_copy = 1, r_branch = 1\<rparr> \<and>
   create_reservation 10 (end_of_day 9) 2 1 1 14 demo_db = (demo_db, Err BadPickupDate) \<and>
   create_reservation 10 (end_of_day 9) 2 1 1 9 demo_db = (demo_db, Err BadPickupDate) \<and>
   create_reservation 10 (end_of_day 9) 2 2 1 10 demo_db = (demo_db, Err NoFreeCopies)"
  using create_reservation_spec[where s = demo_db and today = 10 and now = "end_of_day 9"
      and reader = 2 and book_id = 1 and branch_id = 1 and pickup = 13]
  by (simp add: demo_db_def create_reservation_def expire_old_reservations_def
        select_available_copy_def reservation_create_def save_copy_def
        Let_def end_of_day_def datetime_combine_def date_plus_days_def date_ok_def
        user_exists_def)

text \<open>
  An available copy of the book exists at the branch, the lowest in id, the pickup date
  is today and the reader has a user row, and no reservation is created: the copy is
  still held by an active reservation, and the store rejects the insert. The copy stays
  available and no row is written; only the sequence has advanced.
\<close>

theorem create_reservation_raises_on_held_copy:
  "select_available_copy 1 1 stale_hold_db =
     Some \<lparr>c_id = 2, c_inventory_code = ''INV-0002'', c_status = ''available'',
           c_book = 1, c_location = Some 1\<rparr> \<and>
   fst (expire_old_reservations (end_of_day 9) stale_hold_db) = stale_hold_db \<and>
   user_exists stale_hold_db 2 \<and>
   snd (create_reservation 10 (end_of_day 9) 2 1 1 10 stale_hold_db) = Exc IntegrityError \<and>
   reservations (fst (create_reservation 10 (end_of_day 9) 2 1 1 10 stale_hold_db))
     = reservations stale_hold_db \<and>
   copies (fst (create_reservation 10 (end_of_day 9) 2 1 1 10 stale_hold_db))
     = copies stale_hold_db \<and>
   map c_status (copies (fst (create_reservation 10 (end_of_day 9) 2 1 1 10 stale_hold_db)))
     = [''lost'', ''available'', ''loaned''] \<and>
   next_reservation_id stale_hold_db = 2 \<and>
   next_reservation_id (fst (create_reservation 10 (end_of_day 9) 2 1 1 10 stale_hold_db)) = 3"
  by (simp add: stale_hold_db_def demo_db_def create_reservation_def
        expire_old_reservations_def select_available_copy_def reservation_create_def
        save_copy_def Let_def end_of_day_def datetime_combine_def date_plus_days_def
        date_ok_def user_exists_def rollback_def)

section \<open>The engine operations, run one after the other, keep the store consistent\<close>

lemma holders_save_copy [simp]: "holders (save_copy x s) c = holders s c"
  by (simp add: holders_def save_copy_def)

lemma keys_save_copy [simp]: "reservation_keys_ok (save_copy x s) = reservation_keys_ok s"
  by (simp add: reservation_keys_ok_def save_copy_def)

lemma copies_save_copy:
  "copies (save_copy x s) = map (\<lambda>y. if c_id y = c_id x then x else y) (copies s)"
  by (simp add: save_copy_def)

lemma holders_loan_create:
  assumes "loan_create row s = (s1, Some lid)"
  shows "holders s1 c = holders s c + (if loan_holds c row then 1 else 0)"
  using loan_create_Some[OF assms] by (simp add: holders_def loan_holds_def)

lemma holders_reservation_create:
  assumes "reservation_create row s = (s1, Some k)"
  shows "holders s1 c = holders s c + (if reservation_holds c row then 1 else 0)"
  using reservation_create_Some[OF assms] by (simp add: holders_def reservation_holds_def)

lemma keys_reservation_create:
  assumes "reservation_create row s = (s1, Some k)" and "reservation_keys_ok s"
  shows "reservation_keys_ok s1"
  using reservation_create_Some[OF assms(1)] assms(2)
  by (auto simp: reservation_keys_ok_def less_Suc_eq)

lemma store_consistent_next_loan_id:
  "store_consistent s \<Longrightarrow> store_consistent (s\<lparr>next_loan_id := n\<rparr>)"
  by (simp add: store_consistent_def reservation_keys_ok_def holders_def)

lemma store_consistent_next_reservation_id:
  "store_consistent s \<Longrightarrow>
   store_consistent (s\<lparr>next_reservation_id := Suc (next_reservation_id s)\<rparr>)"
  by (auto simp: store_consistent_def reservation_keys_ok_def holders_def less_Suc_eq)

lemma no_active_loan_count:
  "\<not> (\<exists>l \<in> set (loans s). l_copy l = c \<and> l_status l \<in> set ACTIVE_LOAN_STATUSES) \<Longrightarrow>
   length (filter (loan_holds c) (loans s)) = 0"
  by (auto simp: loan_holds_def filter_empty_conv)

lemma store_consistent_fulfill:
  assumes sc: "store_consistent s"
  shows "store_consistent (fst (fulfill_reservation today now librarian rid loan_days s))"
proof -
  let ?s1 = "fst (expire_old_reservations now s)"
  note sc1 = store_consistent_sweep[OF sc, of now]
  define r where "r = snd (fulfill_reservation today now librarian rid loan_days s)"
  define s' where "s' = fst (fulfill_reservation today now librarian rid loan_days s)"
  have eq: "fulfill_reservation today now librarian rid loan_days s = (s', r)"
    by (simp add: r_def s'_def)
  show ?thesis
  proof (cases "\<exists>d. r = Ok d")
    case False
    with fulfill_reservation_not_Ok[OF eq] sc1 show ?thesis
      by (auto simp: s'_def intro: store_consistent_next_loan_id)
  next
    case True
    then obtain d where "r = Ok d" ..
    from fulfill_reservation_Ok[OF eq[unfolded this]] obtain res c0 u s2 lid where
      f: "find (\<lambda>r. r_id r = rid) (reservations ?s1) = Some res" and
      fc: "find (\<lambda>c. c_id c = r_copy res) (copies ?s1) = Some c0" and
      act: "r_status res = ''active''" and
      nol: "\<not> (\<exists>l \<in> set (loans s). l_copy l = c_id c0 \<and> l_status l \<in> set ACTIVE_LOAN_STATUSES)" and
      lc: "loan_create
         \<lparr>l_id = 0, l_status = ''open'', l_start_date = today,
          l_due_date = today + loan_days, l_return_date = None,
          l_copy = c_id c0, l_reader = u_id (u::user_row), l_librarian = librarian\<rparr> ?s1
            = (s2, Some lid)" and
      s'eq: "s' = save_copy (c0\<lparr>c_status := ''loaned''\<rparr>)
              (save_reservation (res\<lparr>r_status := ''fulfilled''\<rparr>) s2)"
      by blast
    let ?k = "r_copy res"
    from find_Some_key[OF fc] have cid: "c_id c0 = ?k" by simp
    from find_in_set[OF f] have rin1: "res \<in> set (reservations ?s1)" by simp
    note lcs = loan_create_Some[OF lc]
    from lcs have r2: "reservations s2 = reservations ?s1"
      and n2: "next_reservation_id s2 = next_reservation_id ?s1"
      and c2: "copies s2 = copies ?s1" by simp_all
    have k2: "reservation_keys_ok s2"
      using store_consistentD(1)[OF sc1] keys_cong[OF r2 n2] by simp
    have rin2: "res \<in> set (reservations s2)" using rin1 r2 by simp
    have h2: "holders s2 c = holders ?s1 c + (if c = ?k then 1 else 0)" for c
      using holders_loan_create[OF lc, of c] cid
      by (auto simp: loan_holds_def ACTIVE_LOAN_STATUSES_def)
    have hs': "holders s' c = holders (save_reservation (res\<lparr>r_status := ''fulfilled''\<rparr>) s2) c" for c
      unfolding s'eq by simp
    have le: "holders s' c \<le> holders s2 c" for c
      unfolding hs'
      by (rule save_reservation_holders_le[OF k2 rin2]) (simp_all add: reservation_holds_def)
    have less: "holders s' ?k < holders s2 ?k"
      unfolding hs' using act
      by (intro save_reservation_holders_less[OF k2 rin2]) (simp_all add: reservation_holds_def)
    have "store_consistent s'"
    proof (rule store_consistentI)
      have "reservation_keys_ok (save_reservation (res\<lparr>r_status := ''fulfilled''\<rparr>) s2)"
        by (rule save_reservation_keys[OF k2 _ rin2]) simp
      then show "reservation_keys_ok s'" unfolding s'eq by simp
    next
      fix c
      show "holders s' c \<le> 1"
      proof (cases "c = ?k")
        case True
        from less h2[of ?k] store_consistentD(2)[OF sc1, of ?k] True show ?thesis by simp
      next
        case False
        with le[of c] h2[of c] store_consistentD(2)[OF sc1, of c] show ?thesis by simp
      qed
    next
      fix x assume xin: "x \<in> set (copies s')" and av: "c_status x = ''available''"
      from xin have "x = c0\<lparr>c_status := ''loaned''\<rparr> \<or> (x \<in> set (copies ?s1) \<and> c_id x \<noteq> ?k)"
        unfolding s'eq using cid c2
        by (auto simp: copies_save_copy save_reservation_def split: if_splits)
      with av have x1: "x \<in> set (copies ?s1)" and ne: "c_id x \<noteq> ?k" by auto
      from store_consistentD(3)[OF sc1 x1 av] h2[of "c_id x"] ne le[of "c_id x"]
      show "holders s' (c_id x) = 0" by simp
    qed
    then show ?thesis by (simp add: s'_def)
  qed
qed

lemma store_consistent_create:
  assumes sc: "store_consistent s"
  shows "store_consistent (fst (create_reservation today now reader book_id branch_id pickup s))"
proof -
  let ?s1 = "fst (expire_old_reservations now s)"
  note sc1 = store_consistent_sweep[OF sc, of now]
  define r where "r = snd (create_reservation today now reader book_id branch_id pickup s)"
  define s' where "s' = fst (create_reservation today now reader book_id branch_id pickup s)"
  have eq: "create_reservation today now reader book_id branch_id pickup s = (s', r)"
    by (simp add: r_def s'_def)
  show ?thesis
  proof (cases "\<exists>k. r = Ok k")
    case False
    with create_reservation_not_Ok[OF eq] sc sc1 show ?thesis
      by (auto simp: s'_def intro: store_consistent_next_reservation_id)
  next
    case True
    then obtain k where "r = Ok k" ..
    from create_reservation_Ok[OF eq[unfolded this]] obtain c row where
      sel: "select_available_copy book_id branch_id ?s1 = Some c" and
      rowc: "r_copy row = c_id c" and
      rc: "reservation_create row (save_copy (c\<lparr>c_status := ''reserved''\<rparr>) ?s1) = (s', Some k)"
      by force
    let ?s2 = "save_copy (c\<lparr>c_status := ''reserved''\<rparr>) ?s1"
    from select_available_copy_Some[OF sel]
    have cin: "c \<in> set (copies ?s1)" and cav: "c_status c = ''available''"
      by (auto simp: available_at_def)
    from store_consistentD(3)[OF sc1 cin cav] have h0: "holders ?s1 (c_id c) = 0" .
    have hs': "holders s' x \<le> holders ?s1 x + (if x = c_id c then 1 else 0)" for x
      using holders_reservation_create[OF rc, of x] rowc by (simp add: reservation_holds_def)
    have cs': "copies s' = copies ?s2"
      using reservation_create_Some[OF rc] by simp
    have "store_consistent s'"
    proof (rule store_consistentI)
      show "reservation_keys_ok s'"
        by (rule keys_reservation_create[OF rc]) (simp add: store_consistentD(1)[OF sc1])
    next
      fix x
      show "holders s' x \<le> 1"
        using hs'[of x] h0 store_consistentD(2)[OF sc1, of x] by (cases "x = c_id c") simp_all
    next
      fix x assume xin: "x \<in> set (copies s')" and av: "c_status x = ''available''"
      from xin have "x = c\<lparr>c_status := ''reserved''\<rparr> \<or> (x \<in> set (copies ?s1) \<and> c_id x \<noteq> c_id c)"
        unfolding cs' by (auto simp: copies_save_copy split: if_splits)
      with av have x1: "x \<in> set (copies ?s1)" and ne: "c_id x \<noteq> c_id c" by auto
      from store_consistentD(3)[OF sc1 x1 av] hs'[of "c_id x"] ne
      show "holders s' (c_id x) = 0" by simp
    qed
    then show ?thesis by (simp add: s'_def)
  qed
qed

lemma store_consistent_issue:
  assumes sc: "store_consistent s"
  shows "store_consistent (fst (issue_loan today code login librarian s))"
proof -
  define r where "r = snd (issue_loan today code login librarian s)"
  define s' where "s' = fst (issue_loan today code login librarian s)"
  have eq: "issue_loan today code login librarian s = (s', r)" by (simp add: r_def s'_def)
  show ?thesis
  proof (cases "\<exists>k. r = Ok k")
    case False
    with issue_loan_not_Ok[OF eq] sc show ?thesis
      by (auto simp: s'_def intro: store_consistent_next_loan_id)
  next
    case True
    then obtain k where "r = Ok k" ..
    from issue_loan_Ok[OF eq[unfolded this]] obtain c0 c1 u s1 where
      fc: "find (\<lambda>c. c_id c = c_id (c0::copy_row)) (copies s) = Some c1" and
      cav: "c_status c1 = ''available''" and
      lc0: "loan_create
         \<lparr>l_id = 0, l_status = ''open'', l_start_date = today,
          l_due_date = today + DEFAULT_LOAN_DAYS, l_return_date = None,
          l_copy = c_id c1, l_reader = u_id (u::user_row), l_librarian = librarian\<rparr> s
            = (s1, Some k)" and
      s'eq: "s' = save_copy (c1\<lparr>c_status := ''loaned''\<rparr>) s1"
      by blast
    define row where "row = \<lparr>l_id = 0, l_status = ''open'', l_start_date = today,
          l_due_date = today + DEFAULT_LOAN_DAYS, l_return_date = None,
          l_copy = c_id c1, l_reader = u_id u, l_librarian = librarian\<rparr>"
    have rowc: "l_copy row = c_id c1" by (simp add: row_def)
    have lc: "loan_create row s = (s1, Some k)" using lc0 by (simp add: row_def)
    from find_in_set[OF fc] have cin: "c1 \<in> set (copies s)" by simp
    from store_consistentD(3)[OF sc cin cav] have h0: "holders s (c_id c1) = 0" .
    note lcs = loan_create_Some[OF lc]
    have hs': "holders s' x \<le> holders s x + (if x = c_id c1 then 1 else 0)" for x
      unfolding s'eq using holders_loan_create[OF lc, of x] rowc by (simp add: loan_holds_def)
    have cs': "copies s' = map (\<lambda>y. if c_id y = c_id c1 then c1\<lparr>c_status := ''loaned''\<rparr> else y) (copies s)"
      unfolding s'eq using lcs by (simp add: copies_save_copy)
    have "store_consistent s'"
    proof (rule store_consistentI)
      have "reservation_keys_ok s1 = reservation_keys_ok s"
        by (rule keys_cong) (use lcs in simp_all)
      with store_consistentD(1)[OF sc] show "reservation_keys_ok s'" unfolding s'eq by simp
    next
      fix x
      show "holders s' x \<le> 1"
        using hs'[of x] h0 store_consistentD(2)[OF sc, of x] by (cases "x = c_id c1") simp_all
    next
      fix x assume xin: "x \<in> set (copies s')" and av: "c_status x = ''available''"
      from xin have "x = c1\<lparr>c_status := ''loaned''\<rparr> \<or> (x \<in> set (copies s) \<and> c_id x \<noteq> c_id c1)"
        unfolding cs' by (auto split: if_splits)
      with av have x1: "x \<in> set (copies s)" and ne: "c_id x \<noteq> c_id c1" by auto
      from store_consistentD(3)[OF sc x1 av] hs'[of "c_id x"] ne
      show "holders s' (c_id x) = 0" by simp
    qed
    then show ?thesis by (simp add: s'_def)
  qed
qed

lemma save_loan_holders_le:
  assumes "\<not> loan_holds c l'"
  shows "holders (save_loan l' s) c \<le> holders s c"
proof -
  have "length (filter (loan_holds c) (map (\<lambda>x. if l_id x = l_id l' then l' else x) (loans s)))
        \<le> length (filter (loan_holds c) (loans s))"
    by (rule count_map_le) (use assms in \<open>auto split: if_splits\<close>)
  then show ?thesis by (simp add: holders_def save_loan_def)
qed

lemma save_loan_holders_less:
  assumes "\<not> loan_holds c l'" "l \<in> set (loans s)" "l_id l = l_id l'" "loan_holds c l"
  shows "holders (save_loan l' s) c < holders s c"
proof -
  have "length (filter (loan_holds c) (map (\<lambda>x. if l_id x = l_id l' then l' else x) (loans s)))
        < length (filter (loan_holds c) (loans s))"
    by (rule count_map_less[where y = l]) (use assms in \<open>auto split: if_splits\<close>)
  then show ?thesis by (simp add: holders_def save_loan_def)
qed

lemma store_consistent_return:
  assumes sc: "store_consistent s"
  shows "store_consistent (fst (return_loan today loan_id librarian s))"
proof -
  define r where "r = snd (return_loan today loan_id librarian s)"
  define s' where "s' = fst (return_loan today loan_id librarian s)"
  have eq: "return_loan today loan_id librarian s = (s', r)" by (simp add: r_def s'_def)
  show ?thesis
  proof (cases "r = Ok ()")
    case False
    with return_loan_not_Ok[OF eq] sc show ?thesis by (auto simp: s'_def)
  next
    case True
    from return_loan_Ok[OF eq[unfolded True]] obtain loan c0 where
      fl: "find (\<lambda>l. l_id l = loan_id) (loans s) = Some loan" and
      st: "l_status loan \<in> set [''open'', ''overdue'']" and
      fc: "find (\<lambda>c. c_id c = l_copy loan) (copies s) = Some c0" and
      s'eq: "s' = save_copy (c0\<lparr>c_status := ''available''\<rparr>)
            (save_loan (loan\<lparr>l_status := ''returned'', l_return_date := Some today,
                            l_librarian := librarian\<rparr>) s)"
      by blast
    let ?l' = "loan\<lparr>l_status := ''returned'', l_return_date := Some today,
                    l_librarian := librarian\<rparr>"
    from find_in_set[OF fl] have lin: "loan \<in> set (loans s)" by simp
    from find_Some_key[OF fc] have cid: "c_id c0 = l_copy loan" by simp
    have nh: "\<not> loan_holds x ?l'" for x by (simp add: loan_holds_def ACTIVE_LOAN_STATUSES_def)
    have le: "holders s' x \<le> holders s x" for x
      unfolding s'eq by (simp add: save_loan_holders_le[OF nh])
    have less: "holders s' (l_copy loan) < holders s (l_copy loan)"
      unfolding s'eq using st
      by (simp, intro save_loan_holders_less[OF nh lin])
         (auto simp: loan_holds_def ACTIVE_LOAN_STATUSES_def)
    have cs': "copies s' =
        map (\<lambda>y. if c_id y = l_copy loan then c0\<lparr>c_status := ''available''\<rparr> else y) (copies s)"
      unfolding s'eq using cid by (simp add: copies_save_copy save_loan_def)
    have "store_consistent s'"
    proof (rule store_consistentI)
      have "reservation_keys_ok s' = reservation_keys_ok s"
        unfolding s'eq by (simp add: reservation_keys_ok_def save_loan_def save_copy_def)
      with store_consistentD(1)[OF sc] show "reservation_keys_ok s'" by simp
    next
      fix x
      show "holders s' x \<le> 1" using le[of x] store_consistentD(2)[OF sc, of x] by simp
    next
      fix x assume xin: "x \<in> set (copies s')" and av: "c_status x = ''available''"
      show "holders s' (c_id x) = 0"
      proof (cases "c_id x = l_copy loan")
        case True
        with less store_consistentD(2)[OF sc, of "l_copy loan"] show ?thesis by simp
      next
        case False
        with xin have "x \<in> set (copies s)" unfolding cs' using cid by (auto split: if_splits)
        from store_consistentD(3)[OF sc this av] le[of "c_id x"] show ?thesis by simp
      qed
    qed
    then show ?thesis by (simp add: s'_def)
  qed
qed

lemma store_consistent_overdue:
  assumes sc: "store_consistent s"
  shows "store_consistent (fst (update_overdue_statuses today s))"
proof -
  let ?s' = "fst (update_overdue_statuses today s)"
  have h: "holders ?s' c = holders s c" for c
  proof -
    have "length (filter (loan_holds c)
             (map (\<lambda>l. if l_status l = ''open'' \<and> l_due_date l < today
                       then l\<lparr>l_status := ''overdue''\<rparr> else l) (loans s)))
          = length (filter (loan_holds c) (loans s))"
      by (rule count_map_eq) (auto simp: loan_holds_def ACTIVE_LOAN_STATUSES_def)
    then show ?thesis by (simp add: holders_def update_overdue_statuses_def)
  qed
  have k: "reservation_keys_ok ?s' = reservation_keys_ok s"
    by (rule keys_cong) (simp_all add: update_overdue_statuses_def)
  have c: "copies ?s' = copies s" by (simp add: update_overdue_statuses_def)
  show ?thesis
    using sc unfolding store_consistent_def h k c .
qed

lemma demo_db_consistent: "store_consistent demo_db"
  by (auto simp: store_consistent_def reservation_keys_ok_def holders_def loan_holds_def
      reservation_holds_def demo_db_def ACTIVE_LOAN_STATUSES_def)

lemma store_consistent_operations:
  assumes "store_consistent s"
  shows "store_consistent (fst (expire_old_reservations now s))"
    and "store_consistent (fst (create_reservation today now reader book_id branch_id pickup s))"
    and "store_consistent (fst (cancel_reservation now reader rid s))"
    and "store_consistent (fst (extend_reservation now reader rid s))"
    and "store_consistent (fst (fulfill_reservation today now librarian rid loan_days s))"
    and "store_consistent (fst (issue_loan today code login librarian s))"
    and "store_consistent (fst (return_loan today loan_id librarian s))"
    and "store_consistent (fst (update_overdue_statuses today s))"
    and "holders s c \<le> 1"
  using assms
  by (simp_all only: store_consistent_sweep store_consistent_create store_consistent_cancel
        store_consistent_extend store_consistent_fulfill store_consistent_issue
        store_consistent_return store_consistent_overdue store_consistentD(2))

section \<open>The sweep interleaved with an allocation\<close>

lemma sweep_update_nothing: "sweep_update ([], []) s = s"
  by (simp add: sweep_update_def)

lemma sweep_halves:
  "sweep_update (sweep_select now s) s = fst (expire_old_reservations now s)"
proof (cases "filter (\<lambda>r. r_status r = ''active'' \<and> r_expires_at r < now) (reservations s) = []")
  case True
  then have "sweep_select now s = ([], [])" by (simp add: sweep_select_def)
  with True show ?thesis
    by (simp add: sweep_update_nothing expire_old_reservations_def)
next
  case False
  then show ?thesis
    by (simp add: expire_old_reservations_def sweep_select_def sweep_update_def Let_def)
qed

lemma after_issue_db_consistent: "store_consistent after_issue_db"
  by (auto simp: store_consistent_def reservation_keys_ok_def holders_def loan_holds_def
      reservation_holds_def after_issue_db_def ACTIVE_LOAN_STATUSES_def)

text \<open>
  Claim C1 does not hold of the code when callers overlap. The sweep reads the expired
  reservations without a lock and then updates by the ids it has read, testing only
  that the copy is still reserved. Take the example store after copy 1 has been issued
  (a consistent store: every copy has exactly one holder), one microsecond after
  reservation 1 on copy 2 has expired. Caller A starts a sweep and reads ids [1] and
  copy ids [2]. Caller B then creates a reservation for the same book and branch: its
  own sweep expires reservation 1 and frees copy 2, and its allocation reserves copy 2
  under the new active reservation 2. Now A's two UPDATE statements run: copy 2 is
  reserved, so it is set to available, although reservation 2 holds it. A loan issue on
  INV-0002 then succeeds, and copy 2 has two holders, the active reservation 2 and the
  open loan 3. Had A's sweep run to its end before B's call, the issue would have
  failed with the not-available failure.
\<close>

theorem sweep_race_two_holders:
  "issue_loan 9 ''INV-0001'' ''kap213'' 2 demo_db = (after_issue_db, Ok 2) \<and>
   map (holders after_issue_db) [1, 2, 3] = [1, 1, 1] \<and>
   sweep_select (end_of_day 10 + 1) after_issue_db = ([1], [2]) \<and>
   create_reservation 11 (end_of_day 10 + 1) 1 1 1 11 after_issue_db = (after_create_db, Ok 2) \<and>
   map (holders after_create_db) [1, 2, 3] = [1, 1, 1] \<and>
   map c_status (copies after_create_db) = [''loaned'', ''reserved'', ''loaned''] \<and>
   sweep_update ([1], [2]) after_create_db = after_stale_update_db \<and>
   map c_status (copies after_stale_update_db) = [''loaned'', ''available'', ''loaned''] \<and>
   map r_status (reservations after_stale_update_db) = [''expired'', ''active''] \<and>
   issue_loan 11 ''INV-0002'' ''kap213'' 2 after_stale_update_db = (two_holders_db, Ok 3) \<and>
   filter (loan_holds 2) (loans two_holders_db) =
     [\<lparr>l_id = 3, l_status = ''open'', l_start_date = 11, l_due_date = 25,
       l_return_date = None, l_copy = 2, l_reader = 1, l_librarian = 2\<rparr>] \<and>
   filter (reservation_holds 2) (reservations two_holders_db) =
     [\<lparr>r_id = 2, r_status = ''active'', r_pickup_date = 11, r_created_at = end_of_day 10 + 1,
       r_expires_at = end_of_day 11, r_extended_once = False, r_reader = 1,
       r_copy = 2, r_branch = 1\<rparr>] \<and>
   holders two_holders_db 2 = 2 \<and>
   issue_loan 11 ''INV-0002'' ''kap213'' 2 after_create_db
     = (after_create_db, Err CopyNotAvailable)"
proof -
  have s0: "issue_loan 9 ''INV-0001'' ''kap213'' 2 demo_db = (after_issue_db, Ok 2)"
    by (simp add: demo_db_def after_issue_db_def issue_loan_def strip_def isspace_def Let_def
          loan_create_def ACTIVE_LOAN_STATUSES_def DEFAULT_LOAN_DAYS_def save_copy_def
          date_plus_days_def date_ok_def user_exists_def)
  have h0: "map (holders after_issue_db) [1, 2, 3] = [1, 1, 1]"
    by (simp add: after_issue_db_def holders_def loan_holds_def reservation_holds_def
          ACTIVE_LOAN_STATUSES_def)
  have sel: "sweep_select (end_of_day 10 + 1) after_issue_db = ([1], [2])"
    by (simp add: after_issue_db_def sweep_select_def Let_def)
  have s1: "create_reservation 11 (end_of_day 10 + 1) 1 1 1 11 after_issue_db
              = (after_create_db, Ok 2)"
    by (simp add: after_create_db_def after_issue_db_def create_reservation_def
          expire_old_reservations_def select_available_copy_def reservation_create_def
          save_copy_def Let_def date_plus_days_def date_ok_def user_exists_def)
  have h1: "map (holders after_create_db) [1, 2, 3] = [1, 1, 1]"
    by (simp add: after_create_db_def after_issue_db_def holders_def loan_holds_def
          reservation_holds_def ACTIVE_LOAN_STATUSES_def)
  have c1: "map c_status (copies after_create_db) = [''loaned'', ''reserved'', ''loaned'']"
    by (simp add: after_create_db_def after_issue_db_def)
  have s2: "sweep_update ([1], [2]) after_create_db = after_stale_update_db"
    by (simp add: after_stale_update_db_def after_create_db_def after_issue_db_def
          sweep_update_def)
  have c2: "map c_status (copies after_stale_update_db) = [''loaned'', ''available'', ''loaned'']"
    by (simp add: after_stale_update_db_def after_create_db_def after_issue_db_def)
  have r2: "map r_status (reservations after_stale_update_db) = [''expired'', ''active'']"
    by (simp add: after_stale_update_db_def after_create_db_def after_issue_db_def)
  have s3: "issue_loan 11 ''INV-0002'' ''kap213'' 2 after_stale_update_db = (two_holders_db, Ok 3)"
    by (simp add: two_holders_db_def after_stale_update_db_def after_create_db_def
          after_issue_db_def issue_loan_def strip_def isspace_def Let_def
          loan_create_def ACTIVE_LOAN_STATUSES_def DEFAULT_LOAN_DAYS_def save_copy_def
          date_plus_days_def date_ok_def user_exists_def)
  have l3: "filter (loan_holds 2) (loans two_holders_db) =
     [\<lparr>l_id = 3, l_status = ''open'', l_start_date = 11, l_due_date = 25,
       l_return_date = None, l_copy = 2, l_reader = 1, l_librarian = 2\<rparr>]"
    by (simp add: two_holders_db_def after_stale_update_db_def after_create_db_def
          after_issue_db_def loan_holds_def ACTIVE_LOAN_STATUSES_def)
  have r3: "filter (reservation_holds 2) (reservations two_holders_db) =
     [\<lparr>r_id = 2, r_status = ''active'', r_pickup_date = 11, r_created_at = end_of_day 10 + 1,
       r_expires_at = end_of_day 11, r_extended_once = False, r_reader = 1,
       r_copy = 2, r_branch = 1\<rparr>]"
    by (simp add: two_holders_db_def after_stale_update_db_def after_create_db_def
          after_issue_db_def reservation_holds_def)
  have h3: "holders two_holders_db 2 = 2"
    unfolding holders_def l3 r3 by simp
  have alt: "issue_loan 11 ''INV-0002'' ''kap213'' 2 after_create_db
     = (after_create_db, Err CopyNotAvailable)"
    by (simp add: after_create_db_def after_issue_db_def issue_loan_def strip_def isspace_def
          Let_def)
  from s0 h0 sel s1 h1 c1 s2 c2 r2 s3 l3 r3 h3 alt show ?thesis by blast
qed

theorem sweep_race_two_holders_witness:
  "store_consistent after_issue_db \<and>
   holders two_holders_db 2 = 2 \<and>
   \<not> store_consistent two_holders_db \<and>
   fst (issue_loan 11 ''INV-0002'' ''kap213'' 2
          (sweep_update (sweep_select (end_of_day 10 + 1) after_issue_db)
             (fst (create_reservation 11 (end_of_day 10 + 1) 1 1 1 11 after_issue_db))))
     = two_holders_db \<and>
   fst (expire_old_reservations (end_of_day 10 + 1) after_create_db) = after_create_db"
proof -
  note t = sweep_race_two_holders
  from t have h: "holders two_holders_db 2 = 2" by blast
  have n: "\<not> store_consistent two_holders_db"
  proof
    assume "store_consistent two_holders_db"
    from store_consistentD(2)[OF this, of 2] h show False by simp
  qed
  from t have run: "fst (issue_loan 11 ''INV-0002'' ''kap213'' 2
          (sweep_update (sweep_select (end_of_day 10 + 1) after_issue_db)
             (fst (create_reservation 11 (end_of_day 10 + 1) 1 1 1 11 after_issue_db))))
     = two_holders_db"
    by simp
  have e: "fst (expire_old_reservations (end_of_day 10 + 1) after_create_db) = after_create_db"
    by (simp add: expire_old_reservations_def after_create_db_def after_issue_db_def Let_def
          end_of_day_def datetime_combine_def)
  from after_issue_db_consistent h n run e show ?thesis by blast
qed

section \<open>Access policy: union of grants\<close>

lemma merge_items_step:
  "merge_items ((k, val) # rest) m = merge_items rest (merge_item k val m)"
  by (simp add: merge_item_def split: jval.splits)

lemma merge_item_all: "merge_item k' val m ''all'' = m ''all''"
  by (simp add: merge_item_def split: jval.splits option.splits)

lemma merge_item_stays:
  "m k = Some (JBool True) \<Longrightarrow> (k' = k \<longrightarrow> (\<exists>b. val = JBool b)) \<Longrightarrow>
   merge_item k' val m k = Some (JBool True)"
  by (auto simp: merge_item_def split: jval.splits option.splits)

lemma merge_item_grants:
  "k \<noteq> ''all'' \<Longrightarrow> merge_item k (JBool True) m k = Some (JBool True)"
  by (simp add: merge_item_def)

lemma merge_item_not_granted:
  "m k = None \<or> m k = Some (JBool False) \<Longrightarrow> (k' = k \<longrightarrow> val = JBool False) \<Longrightarrow>
   merge_item k' val m k = None \<or> merge_item k' val m k = Some (JBool False)"
  by (auto simp: merge_item_def split: jval.splits option.splits)

lemma merge_items_all: "merge_items d m ''all'' = m ''all''"
proof (induction d arbitrary: m)
  case Nil
  then show ?case by simp
next
  case (Cons kv d)
  obtain k' val where kv: "kv = (k', val)" by (cases kv)
  show ?case unfolding kv merge_items_step Cons.IH by (rule merge_item_all)
qed

lemma merge_items_stays:
  "m k = Some (JBool True) \<Longrightarrow>
   (\<forall>v. (k, v) \<in> set d \<longrightarrow> (\<exists>b. v = JBool b)) \<Longrightarrow>
   merge_items d m k = Some (JBool True)"
proof (induction d arbitrary: m)
  case Nil
  then show ?case by simp
next
  case (Cons kv d)
  obtain k' val where kv: "kv = (k', val)" by (cases kv)
  from Cons.prems kv have "merge_item k' val m k = Some (JBool True)"
    by (intro merge_item_stays) auto
  then have "merge_items d (merge_item k' val m) k = Some (JBool True)"
    by (rule Cons.IH) (use Cons.prems in auto)
  then show ?case unfolding kv merge_items_step .
qed

lemma merge_items_granted:
  "k \<noteq> ''all'' \<Longrightarrow> (k, JBool True) \<in> set d \<Longrightarrow>
   (\<forall>v. (k, v) \<in> set d \<longrightarrow> (\<exists>b. v = JBool b)) \<Longrightarrow>
   merge_items d m k = Some (JBool True)"
proof (induction d arbitrary: m)
  case Nil
  then show ?case by simp
next
  case (Cons kv d)
  obtain k' val where kv: "kv = (k', val)" by (cases kv)
  show ?case
  proof (cases "kv = (k, JBool True)")
    case True
    with kv have "k' = k" "val = JBool True" by simp_all
    with Cons.prems(1) have "merge_item k' val m k = Some (JBool True)"
      by (simp add: merge_item_grants)
    then have "merge_items d (merge_item k' val m) k = Some (JBool True)"
      by (rule merge_items_stays) (use Cons.prems in auto)
    then show ?thesis unfolding kv merge_items_step .
  next
    case False
    with Cons.prems have "(k, JBool True) \<in> set d" by auto
    with Cons.prems have "merge_items d (merge_item k' val m) k = Some (JBool True)"
      by (intro Cons.IH) auto
    then show ?thesis unfolding kv merge_items_step .
  qed
qed

lemma merge_items_not_granted:
  "m k = None \<or> m k = Some (JBool False) \<Longrightarrow>
   (\<forall>v. (k, v) \<in> set d \<longrightarrow> v = JBool False) \<Longrightarrow>
   merge_items d m k = None \<or> merge_items d m k = Some (JBool False)"
proof (induction d arbitrary: m)
  case Nil
  then show ?case by simp
next
  case (Cons kv d)
  obtain k' val where kv: "kv = (k', val)" by (cases kv)
  from Cons.prems kv have "merge_item k' val m k = None \<or> merge_item k' val m k = Some (JBool False)"
    by (intro merge_item_not_granted) auto
  then have "merge_items d (merge_item k' val m) k = None \<or>
             merge_items d (merge_item k' val m) k = Some (JBool False)"
    by (rule Cons.IH) (use Cons.prems in auto)
  then show ?case unfolding kv merge_items_step .
qed

lemma merge_roles_short:
  "\<exists>d \<in> set ds. map_of d ''all'' = Some (JBool True) \<Longrightarrow>
   merge_roles ds m = [''all'' \<mapsto> JBool True]"
  by (induction ds arbitrary: m) auto

lemma merge_roles_all:
  "\<forall>d \<in> set ds. map_of d ''all'' \<noteq> Some (JBool True) \<Longrightarrow> merge_roles ds m ''all'' = m ''all''"
  by (induction ds arbitrary: m) (auto simp: merge_items_all)

lemma merge_roles_stays:
  "\<forall>d \<in> set ds. map_of d ''all'' \<noteq> Some (JBool True) \<Longrightarrow> k \<noteq> ''all'' \<Longrightarrow>
   m k = Some (JBool True) \<Longrightarrow>
   (\<forall>d \<in> set ds. \<forall>v. (k, v) \<in> set d \<longrightarrow> (\<exists>b. v = JBool b)) \<Longrightarrow>
   merge_roles ds m k = Some (JBool True)"
proof (induction ds arbitrary: m)
  case Nil
  then show ?case by simp
next
  case (Cons d ds)
  from Cons.prems have "merge_items d m k = Some (JBool True)"
    by (intro merge_items_stays) auto
  then have "merge_roles ds (merge_items d m) k = Some (JBool True)"
    by (intro Cons.IH) (use Cons.prems in auto)
  with Cons.prems show ?case by simp
qed

lemma merge_roles_granted:
  "\<forall>d \<in> set ds. map_of d ''all'' \<noteq> Some (JBool True) \<Longrightarrow> k \<noteq> ''all'' \<Longrightarrow>
   \<exists>d \<in> set ds. (k, JBool True) \<in> set d \<Longrightarrow>
   (\<forall>d \<in> set ds. \<forall>v. (k, v) \<in> set d \<longrightarrow> (\<exists>b. v = JBool b)) \<Longrightarrow>
   merge_roles ds m k = Some (JBool True)"
proof (induction ds arbitrary: m)
  case Nil
  then show ?case by simp
next
  case (Cons d ds)
  show ?case
  proof (cases "(k, JBool True) \<in> set d")
    case True
    with Cons.prems have "merge_items d m k = Some (JBool True)"
      by (intro merge_items_granted) auto
    with Cons.prems have "merge_roles ds (merge_items d m) k = Some (JBool True)"
      by (intro merge_roles_stays) auto
    with Cons.prems show ?thesis by simp
  next
    case False
    with Cons.prems have "\<exists>d \<in> set ds. (k, JBool True) \<in> set d" by auto
    with Cons.prems have "merge_roles ds (merge_items d m) k = Some (JBool True)"
      by (intro Cons.IH) auto
    with Cons.prems show ?thesis by simp
  qed
qed

lemma merge_roles_not_granted:
  "\<forall>d \<in> set ds. map_of d ''all'' \<noteq> Some (JBool True) \<Longrightarrow>
   m k = None \<or> m k = Some (JBool False) \<Longrightarrow>
   (\<forall>d \<in> set ds. \<forall>v. (k, v) \<in> set d \<longrightarrow> v = JBool False) \<Longrightarrow>
   merge_roles ds m k = None \<or> merge_roles ds m k = Some (JBool False)"
proof (induction ds arbitrary: m)
  case Nil
  then show ?case by simp
next
  case (Cons d ds)
  from Cons.prems have "merge_items d m k = None \<or> merge_items d m k = Some (JBool False)"
    by (intro merge_items_not_granted) auto
  with Cons.prems have "merge_roles ds (merge_items d m) k = None \<or>
                        merge_roles ds (merge_items d m) k = Some (JBool False)"
    by (intro Cons.IH) auto
  with Cons.prems show ?case by simp
qed

text \<open>
  Claim C8. \<^verbatim>\<open>Session.can\<close> is true when the rights map has \<^verbatim>\<open>all\<close> = true;
  otherwise it is the boolean stored under the key, and false for an absent key. The
  rights that \<^verbatim>\<open>get_user_rights\<close> merges from the roles of a user are a union of
  grants: with a role whose \<^verbatim>\<open>all\<close> is true the result is \<^verbatim>\<open>{"all": true}\<close> and every
  permission is granted; without one, for a key other than \<^verbatim>\<open>all\<close> whose values in
  the roles are booleans, the permission is granted exactly when some role holds true
  for it, whatever false or nothing the other roles hold.
\<close>

theorem session_can_union_of_grants:
  "(sess_rights sess ''all'' = Some (JBool True) \<longrightarrow> can sess perm) \<and>
   (sess_rights sess ''all'' \<noteq> Some (JBool True) \<longrightarrow>
      (sess_rights sess perm = None \<longrightarrow> \<not> can sess perm) \<and>
      (\<forall>b. sess_rights sess perm = Some (JBool b) \<longrightarrow> can sess perm = b)) \<and>
   (sess_rights sess = get_user_rights json_loads roles user_roles user \<longrightarrow>
      (let ds = user_role_rights json_loads roles user_roles user in
       ((\<exists>d \<in> set ds. map_of d ''all'' = Some (JBool True)) \<longrightarrow>
          sess_rights sess = [''all'' \<mapsto> JBool True] \<and> (\<forall>p. can sess p)) \<and>
       (\<not> (\<exists>d \<in> set ds. map_of d ''all'' = Some (JBool True)) \<and> perm \<noteq> ''all'' \<and>
        (\<forall>d \<in> set ds. \<forall>v. (perm, v) \<in> set d \<longrightarrow> (\<exists>b. v = JBool b)) \<longrightarrow>
          can sess perm = (\<exists>d \<in> set ds. (perm, JBool True) \<in> set d))))"
proof (intro conjI impI allI)
  assume "sess_rights sess ''all'' = Some (JBool True)"
  then show "can sess perm" by (simp add: can_def)
next
  assume "sess_rights sess ''all'' \<noteq> Some (JBool True)" "sess_rights sess perm = None"
  then show "\<not> can sess perm" by (simp add: can_def)
next
  fix b
  assume "sess_rights sess ''all'' \<noteq> Some (JBool True)" "sess_rights sess perm = Some (JBool b)"
  then show "can sess perm = b" by (simp add: can_def)
next
  assume r: "sess_rights sess = get_user_rights json_loads roles user_roles user"
  define ds where "ds = user_role_rights json_loads roles user_roles user"
  from r have rights: "sess_rights sess = merge_roles ds Map.empty"
    by (simp add: get_user_rights_def ds_def)
  have short: "sess_rights sess = [''all'' \<mapsto> JBool True] \<and> (\<forall>p. can sess p)"
    if "\<exists>d \<in> set ds. map_of d ''all'' = Some (JBool True)"
    using merge_roles_short[OF that, of Map.empty] rights by (simp add: can_def)
  have union: "can sess perm = (\<exists>d \<in> set ds. (perm, JBool True) \<in> set d)"
    if a: "\<not> (\<exists>d \<in> set ds. map_of d ''all'' = Some (JBool True)) \<and> perm \<noteq> ''all'' \<and>
        (\<forall>d \<in> set ds. \<forall>v. (perm, v) \<in> set d \<longrightarrow> (\<exists>b. v = JBool b))"
  proof -
    from a have na: "\<forall>d \<in> set ds. map_of d ''all'' \<noteq> Some (JBool True)" by simp
    from merge_roles_all[OF na, of Map.empty] rights
    have all: "sess_rights sess ''all'' = None" by simp
    show ?thesis
    proof (cases "\<exists>d \<in> set ds. (perm, JBool True) \<in> set d")
      case True
      from a have "merge_roles ds Map.empty perm = Some (JBool True)"
        by (intro merge_roles_granted[OF na _ True]) simp_all
      with True all rights show ?thesis by (simp add: can_def)
    next
      case False
      with a have "\<forall>d \<in> set ds. \<forall>v. (perm, v) \<in> set d \<longrightarrow> v = JBool False" by force
      from merge_roles_not_granted[OF na _ this, of Map.empty] rights
      have "sess_rights sess perm = None \<or> sess_rights sess perm = Some (JBool False)" by simp
      with False all show ?thesis by (auto simp: can_def)
    qed
  qed
  from short union show "let ds = user_role_rights json_loads roles user_roles user in
       ((\<exists>d \<in> set ds. map_of d ''all'' = Some (JBool True)) \<longrightarrow>
          sess_rights sess = [''all'' \<mapsto> JBool True] \<and> (\<forall>p. can sess p)) \<and>
       (\<not> (\<exists>d \<in> set ds. map_of d ''all'' = Some (JBool True)) \<and> perm \<noteq> ''all'' \<and>
        (\<forall>d \<in> set ds. \<forall>v. (perm, v) \<in> set d \<longrightarrow> (\<exists>b. v = JBool b)) \<longrightarrow>
          can sess perm = (\<exists>d \<in> set ds. (perm, JBool True) \<in> set d))"
    unfolding ds_def[symmetric] Let_def by blast
qed

theorem session_can_union_of_grants_witness:
  "user_role_rights (\<lambda>x. None) demo_roles demo_user_roles 1 =
     [[(''manage_loans'', JBool False), (''create_reservation'', JBool True)],
      [(''create_reservation'', JBool False), (''manage_own_reservations'', JBool True)]] \<and>
   can reader_session ''create_reservation'' \<and>
   can reader_session ''manage_own_reservations'' \<and>
   \<not> can reader_session ''manage_loans'' \<and>
   \<not> can reader_session ''manage_reservations'' \<and>
   get_user_rights (\<lambda>x. None) demo_roles demo_user_roles 3 = [''all'' \<mapsto> JBool True]"
  using session_can_union_of_grants[where sess = reader_session and perm = "''create_reservation''"
      and json_loads = "\<lambda>x. None" and roles = demo_roles and user_roles = demo_user_roles
      and user = 1]
  by (simp add: reader_session_def demo_roles_def demo_user_roles_def get_user_rights_def
        user_role_rights_def normalize_rights_def can_def Let_def)

section \<open>Guarded entry points: the permission check\<close>

text \<open>
  Claim C2, as the code has it. The session is checked by the handler that calls the
  engine operation: when the session lacks the key of the operation
  (\<^verbatim>\<open>manage_loans\<close> for issue, return and overdue update, \<^verbatim>\<open>create_reservation\<close>
  for creation, \<^verbatim>\<open>manage_own_reservations\<close> for cancel and extend,
  \<^verbatim>\<open>manage_reservations\<close> for fulfilment), the handler returns before the operation
  is called, with the store as it was and no result of the operation, hence no
  failure value either.
\<close>

theorem guarded_entry_points:
  "(\<not> can sess ''manage_loans'' \<longrightarrow>
      ui_issue_loan sess today code login s = (s, None) \<and>
      ui_return_loan sess today sel s = (s, None) \<and>
      ui_update_overdue sess today s = (s, None)) \<and>
   (\<not> can sess ''create_reservation'' \<longrightarrow>
      ui_reserve_book sess today now sel presses s = (s, None)) \<and>
   (\<not> can sess ''manage_own_reservations'' \<longrightarrow>
      ui_cancel_reservation sess now sel s = (s, None) \<and>
      ui_extend_reservation sess now sel s = (s, None)) \<and>
   (\<not> can sess ''manage_reservations'' \<longrightarrow>
      ui_fulfill_reservation sess today now sel s = (s, None))"
  by (simp add: ui_issue_loan_def ui_return_loan_def ui_update_overdue_def
        ui_reserve_book_def ui_cancel_reservation_def ui_extend_reservation_def
        ui_fulfill_reservation_def)

lemma reader_session_rights:
  "\<not> can reader_session ''manage_loans''"
  "\<not> can reader_session ''manage_reservations''"
  "can reader_session ''create_reservation''"
  "can reader_session ''manage_own_reservations''"
  "sess_user reader_session = 1"
  by (simp_all add: reader_session_def demo_roles_def demo_user_roles_def get_user_rights_def
        user_role_rights_def normalize_rights_def can_def Let_def)

theorem guarded_entry_points_witness:
  "\<not> can reader_session ''manage_loans'' \<and>
   ui_issue_loan reader_session 20 ''INV-0001'' ''kap213'' demo_db = (demo_db, None) \<and>
   ui_return_loan reader_session 20 (Some 1) demo_db = (demo_db, None) \<and>
   ui_update_overdue reader_session 20 demo_db = (demo_db, None) \<and>
   \<not> can reader_session ''manage_reservations'' \<and>
   ui_fulfill_reservation reader_session 9 (end_of_day 9) (Some 1) demo_db = (demo_db, None) \<and>
   can reader_session ''manage_own_reservations'' \<and>
   snd (ui_extend_reservation reader_session (end_of_day 9) (Some 1) demo_db) = Some (Ok 11)"
  using guarded_entry_points[where sess = reader_session and s = demo_db and today = 20
      and code = "''INV-0001''" and login = "''kap213''" and sel = "Some 1"]
    guarded_entry_points[where sess = reader_session and s = demo_db and today = 9
      and now = "end_of_day 9" and sel = "Some 1"]
  by (simp add: reader_session_rights ui_extend_reservation_def extend_reservation_def
        load_reservations_def demo_db_def expire_old_reservations_def save_reservation_def
        Let_def end_of_day_def datetime_combine_def date_plus_days_def date_ok_def)

text \<open>
  The engine operation itself checks no permission: called for the user of a session
  without \<^verbatim>\<open>manage_loans\<close> it issues the loan, and the handler of that session
  returns no failure value.
\<close>

theorem issue_loan_checks_no_permission:
  "\<not> can reader_session ''manage_loans'' \<and>
   snd (issue_loan 20 ''INV-0001'' ''kap213'' (sess_user reader_session) demo_db) = Ok 2 \<and>
   fst (issue_loan 20 ''INV-0001'' ''kap213'' (sess_user reader_session) demo_db) \<noteq> demo_db \<and>
   map c_status (copies (fst (issue_loan 20 ''INV-0001'' ''kap213'' (sess_user reader_session)
      demo_db))) = [''loaned'', ''reserved'', ''loaned''] \<and>
   snd (ui_issue_loan reader_session 20 ''INV-0001'' ''kap213'' demo_db) = None"
  by (simp add: reader_session_rights ui_issue_loan_def demo_db_def issue_loan_def strip_def
        isspace_def Let_def loan_create_def ACTIVE_LOAN_STATUSES_def DEFAULT_LOAN_DAYS_def
        save_copy_def date_plus_days_def date_ok_def user_exists_def)

end
